theory Spec2Isabelle
  imports Main "HOL-Library.Sublist"
begin

section \<open>Strings and errors\<close>

text \<open>
  A Go \<^verbatim>\<open>string\<close> is a sequence of bytes; it is modelled as \<^typ>\<open>string\<close>, a list of
  8-bit characters. \<^verbatim>\<open>fmt.Sprintf\<close> with the verb \<^verbatim>\<open>%v\<close> applied to a string inserts the
  string unchanged, so every \<^verbatim>\<open>Sprintf\<close> of the source is a concatenation.

  Every \<^verbatim>\<open>error\<close> value the two packages create is a constructor of \<open>err\<close>.
\<close>

datatype err =
    MissingScope        \<comment> \<open>\<^verbatim>\<open>errors.New("Functions must specify a database and a schema")\<close>\<close>
  | NotCSVCompatible    \<comment> \<open>\<^verbatim>\<open>fmt.Errorf("Not CSV compatible")\<close>\<close>
  | OneLinePerPipe      \<comment> \<open>\<^verbatim>\<open>fmt.Errorf("1 line per pipe")\<close>\<close>
  | ThreeFieldsAllowed  \<comment> \<open>\<^verbatim>\<open>fmt.Errorf("3 fields allowed")\<close>\<close>
  | ExecError string    \<comment> \<open>\<^verbatim>\<open>errors.Wrapf(err, ...)\<close> around a failure of \<^verbatim>\<open>snowflake.Exec\<close>\<close>
  | ScanError           \<comment> \<open>any error of the row scan other than \<^verbatim>\<open>sql.ErrNoRows\<close>\<close>

text \<open>\<^verbatim>\<open>strings.Join(elems, sep)\<close>.\<close>

fun Join :: "string list \<Rightarrow> string \<Rightarrow> string" where
  "Join [] sep = []"
| "Join [x] sep = x"
| "Join (x # y # ys) sep = x @ sep @ Join (y # ys) sep"

section \<open>The statement builder (pkg/snowflake/udf.go)\<close>

text \<open>
  \<^verbatim>\<open>EscapeString\<close> is declared in a file of the package that is not among the sources at
  hand. The builder functions that call it take it as the parameter \<open>esc\<close>, so that what
  is proved of them holds for whatever \<^verbatim>\<open>EscapeString\<close> computes.
\<close>

record Argument =
  arg_name :: string
  arg_type :: string

text \<open>The receiver of the two methods is a pointer; \<open>None\<close> is the \<^verbatim>\<open>nil\<close> receiver.\<close>

fun getArgumentDefinition :: "(string \<Rightarrow> string) \<Rightarrow> Argument option \<Rightarrow> string" where
  "getArgumentDefinition esc None = []"
| "getArgumentDefinition esc (Some c) = ''\"'' @ esc (arg_name c) @ ''\" '' @ esc (arg_type c)"

fun getArgumentTypeDefinition :: "(string \<Rightarrow> string) \<Rightarrow> Argument option \<Rightarrow> string" where
  "getArgumentTypeDefinition esc None = []"
| "getArgumentTypeDefinition esc (Some c) = esc (arg_type c)"

type_synonym Arguments = "Argument list"

definition getArgumentDefinitions :: "(string \<Rightarrow> string) \<Rightarrow> Arguments \<Rightarrow> string" where
  "getArgumentDefinitions esc args =
     (let definitions = map (\<lambda>column. getArgumentDefinition esc (Some column)) args
      in ''('' @ Join definitions '', '' @ '')'')"

definition getArgumentTypesDefinitions :: "(string \<Rightarrow> string) \<Rightarrow> Arguments \<Rightarrow> string" where
  "getArgumentTypesDefinitions esc args =
     (let definitions = map (\<lambda>column. getArgumentTypeDefinition esc (Some column)) args
      in ''('' @ Join definitions '', '' @ '')'')"

record UdfBuilder =
  name :: string
  db :: string
  schema :: string
  replace :: bool
  secure :: bool
  language :: string
  returnType :: string
  arguments :: Arguments
  body :: string

definition QualifiedName :: "UdfBuilder \<Rightarrow> err + string" where
  "QualifiedName vb =
     (if db vb = [] \<or> schema vb = [] then Inl MissingScope
      else Inr (''\"'' @ db vb @ ''\".\"'' @ schema vb @ ''\".\"'' @ name vb @ ''\"''))"

definition WithLanguage :: "string \<Rightarrow> UdfBuilder \<Rightarrow> UdfBuilder" where
  "WithLanguage c vb = vb\<lparr>language := c\<rparr>"

definition WithDB :: "string \<Rightarrow> UdfBuilder \<Rightarrow> UdfBuilder" where
  "WithDB d vb = vb\<lparr>db := d\<rparr>"

definition WithArguments :: "Arguments \<Rightarrow> UdfBuilder \<Rightarrow> UdfBuilder" where
  "WithArguments args ub = ub\<lparr>arguments := args\<rparr>"

definition WithReplace :: "UdfBuilder \<Rightarrow> UdfBuilder" where
  "WithReplace vb = vb\<lparr>replace := True\<rparr>"

definition WithSecure :: "UdfBuilder \<Rightarrow> UdfBuilder" where
  "WithSecure vb = vb\<lparr>secure := True\<rparr>"

definition WithSchema :: "string \<Rightarrow> UdfBuilder \<Rightarrow> UdfBuilder" where
  "WithSchema s vb = vb\<lparr>schema := s\<rparr>"

definition WithReturnType :: "string \<Rightarrow> UdfBuilder \<Rightarrow> UdfBuilder" where
  "WithReturnType s vb = vb\<lparr>returnType := s\<rparr>"

definition WithBody :: "string \<Rightarrow> UdfBuilder \<Rightarrow> UdfBuilder" where
  "WithBody s vb = vb\<lparr>body := s\<rparr>"

text \<open>\<^verbatim>\<open>Udf(name)\<close>: every other field has Go's zero value.\<close>

definition Udf :: "string \<Rightarrow> UdfBuilder" where
  "Udf n = \<lparr>name = n, db = [], schema = [], replace = False, secure = False,
            language = [], returnType = [], arguments = [], body = []\<rparr>"

text \<open>
  \<^verbatim>\<open>Create\<close> writes to a \<^verbatim>\<open>strings.Builder\<close>; \<open>q\<close> is its content after each write, in the
  order of the source.
\<close>

definition Create :: "(string \<Rightarrow> string) \<Rightarrow> UdfBuilder \<Rightarrow> err + string" where
  "Create esc vb =
     (let q = ''CREATE'';
          q = (if replace vb then q @ '' OR REPLACE'' else q);
          q = (if secure vb then q @ '' SECURE'' else q)
      in case QualifiedName vb of
           Inl e \<Rightarrow> Inl e
         | Inr qn \<Rightarrow>
             (let q = q @ '' FUNCTION '' @ qn;
                  q = q @ '' '' @ getArgumentDefinitions esc (arguments vb);
                  q = (if returnType vb \<noteq> [] then q @ '' RETURNS '' @ esc (returnType vb) else q);
                  q = (if language vb \<noteq> [] then q @ '' LANGUAGE '' @ esc (language vb) else q);
                  q = q @ '' AS $$ '' @ body vb @ '' $$''
              in Inr q))"

text \<open>
  \<^verbatim>\<open>Rename\<close> assigns to \<^verbatim>\<open>vb.name\<close> through the pointer receiver: the model returns the
  builder after the call beside the result. The first error return comes before the
  assignment, the second after it.
\<close>

definition Rename :: "(string \<Rightarrow> string) \<Rightarrow> string \<Rightarrow> UdfBuilder \<Rightarrow> (err + string) \<times> UdfBuilder" where
  "Rename esc newName vb =
     (case QualifiedName vb of
        Inl e \<Rightarrow> (Inl e, vb)
      | Inr oldName \<Rightarrow>
          (let vb' = vb\<lparr>name := newName\<rparr>
           in case QualifiedName vb' of
                Inl e \<Rightarrow> (Inl e, vb')
              | Inr qn \<Rightarrow>
                  (let dataTypes = getArgumentTypesDefinitions esc (arguments vb')
                   in (Inr (''ALTER FUNCTION '' @ oldName @ '' '' @ dataTypes @ '' RENAME TO '' @ qn),
                       vb'))))"

definition Secure :: "(string \<Rightarrow> string) \<Rightarrow> UdfBuilder \<Rightarrow> err + string" where
  "Secure esc vb =
     (case QualifiedName vb of
        Inl e \<Rightarrow> Inl e
      | Inr qn \<Rightarrow>
          (let dataTypes = getArgumentTypesDefinitions esc (arguments vb)
           in Inr (''ALTER FUNCTION '' @ qn @ '' '' @ dataTypes @ '' SET SECURE'')))"

definition Unsecure :: "(string \<Rightarrow> string) \<Rightarrow> UdfBuilder \<Rightarrow> err + string" where
  "Unsecure esc vb =
     (case QualifiedName vb of
        Inl e \<Rightarrow> Inl e
      | Inr qn \<Rightarrow>
          (let dataTypes = getArgumentTypesDefinitions esc (arguments vb)
           in Inr (''ALTER FUNCTION '' @ qn @ '' '' @ dataTypes @ '' UNSET SECURE'')))"

definition Show :: "UdfBuilder \<Rightarrow> string" where
  "Show vb = ''SHOW FUNCTIONS LIKE '' @ [CHR 0x27] @ name vb @ [CHR 0x27]
               @ '' IN SCHEMA \"'' @ db vb @ ''\".\"'' @ schema vb @ ''\"''"

definition Drop :: "(string \<Rightarrow> string) \<Rightarrow> UdfBuilder \<Rightarrow> err + string" where
  "Drop esc vb =
     (case QualifiedName vb of
        Inl e \<Rightarrow> Inl e
      | Inr qn \<Rightarrow>
          (let dataTypes = getArgumentTypesDefinitions esc (arguments vb)
           in Inr (''DROP FUNCTION '' @ qn @ '' '' @ dataTypes)))"

section \<open>Library functions of Go used by the identifier codec\<close>

text \<open>
  The codec of pkg/resources/udf.go calls \<^verbatim>\<open>strings.TrimSpace\<close> and the reader and writer
  of \<^verbatim>\<open>encoding/csv\<close> of Go's standard library. This section writes out what these
  library functions compute for the settings the repository uses: a one-byte delimiter,
  \<^verbatim>\<open>UseCRLF\<close>, \<^verbatim>\<open>LazyQuotes\<close> and \<^verbatim>\<open>TrimLeadingSpace\<close> false, no comment character,
  \<^verbatim>\<open>FieldsPerRecord\<close> zero, input from a string and output to a byte buffer (neither of
  which fails).
\<close>

subsection \<open>White space\<close>

text \<open>
  \<^verbatim>\<open>unicode.IsSpace\<close> holds of the code points U+0009 to U+000D, U+0020, U+0085, U+00A0,
  U+1680, U+2000 to U+200A, U+2028, U+2029, U+202F, U+205F and U+3000. \<open>spaceRunes\<close>
  lists their UTF-8 encodings. \<^verbatim>\<open>utf8.DecodeRuneInString\<close> returns one of these code points
  exactly when the string begins with its encoding, and \<^verbatim>\<open>utf8.DecodeLastRuneInString\<close>
  exactly when the string ends with it (an invalid or truncated sequence decodes to
  \<^verbatim>\<open>RuneError\<close>, which is not white space).
\<close>

definition spaceRunes :: "string list" where
  "spaceRunes =
     [[CHR 0x09], [CHR 0x0A], [CHR 0x0B], [CHR 0x0C], [CHR 0x0D], [CHR 0x20],
      [CHR 0xC2, CHR 0x85], [CHR 0xC2, CHR 0xA0],
      [CHR 0xE1, CHR 0x9A, CHR 0x80],
      [CHR 0xE2, CHR 0x80, CHR 0x80], [CHR 0xE2, CHR 0x80, CHR 0x81],
      [CHR 0xE2, CHR 0x80, CHR 0x82], [CHR 0xE2, CHR 0x80, CHR 0x83],
      [CHR 0xE2, CHR 0x80, CHR 0x84], [CHR 0xE2, CHR 0x80, CHR 0x85],
      [CHR 0xE2, CHR 0x80, CHR 0x86], [CHR 0xE2, CHR 0x80, CHR 0x87],
      [CHR 0xE2, CHR 0x80, CHR 0x88], [CHR 0xE2, CHR 0x80, CHR 0x89],
      [CHR 0xE2, CHR 0x80, CHR 0x8A],
      [CHR 0xE2, CHR 0x80, CHR 0xA8], [CHR 0xE2, CHR 0x80, CHR 0xA9],
      [CHR 0xE2, CHR 0x80, CHR 0xAF],
      [CHR 0xE2, CHR 0x81, CHR 0x9F],
      [CHR 0xE3, CHR 0x80, CHR 0x80]]"

text \<open>The encoding of the white-space rune the string begins with, or ends with.\<close>

definition leadingSpace :: "string \<Rightarrow> string option" where
  "leadingSpace s = find (\<lambda>w. prefix w s) spaceRunes"

definition trailingSpace :: "string \<Rightarrow> string option" where
  "trailingSpace s = find (\<lambda>w. suffix w s) spaceRunes"

text \<open>\<^verbatim>\<open>strings.TrimLeftFunc(s, unicode.IsSpace)\<close> and \<^verbatim>\<open>strings.TrimRightFunc(s, unicode.IsSpace)\<close>.\<close>

function TrimLeftSpace :: "string \<Rightarrow> string" where
  "TrimLeftSpace s =
     (case leadingSpace s of
        None \<Rightarrow> s
      | Some w \<Rightarrow> TrimLeftSpace (drop (length w) s))"
  by pat_completeness auto
termination
proof (relation "measure length")
  show "wf (measure length)" by simp
next
  fix s w
  assume "leadingSpace s = Some w"
  then have "w \<in> set spaceRunes" and "prefix w s"
    by (auto simp: leadingSpace_def find_Some_iff)
  then have "w \<noteq> []" and "length w \<le> length s"
    by (auto simp: spaceRunes_def prefix_length_le)
  then show "(drop (length w) s, s) \<in> measure length"
    by (cases w) auto
qed

function TrimRightSpace :: "string \<Rightarrow> string" where
  "TrimRightSpace s =
     (case trailingSpace s of
        None \<Rightarrow> s
      | Some w \<Rightarrow> TrimRightSpace (take (length s - length w) s))"
  by pat_completeness auto
termination
proof (relation "measure length")
  show "wf (measure length)" by simp
next
  fix s w
  assume "trailingSpace s = Some w"
  then have "w \<in> set spaceRunes" and "suffix w s"
    by (auto simp: trailingSpace_def find_Some_iff)
  then have "w \<noteq> []" and "length w \<le> length s"
    by (auto simp: spaceRunes_def suffix_length_le)
  then show "(take (length s - length w) s, s) \<in> measure length"
    by (cases w) auto
qed

text \<open>\<^verbatim>\<open>strings.TrimSpace\<close>: leading and trailing white-space runes removed.\<close>

definition TrimSpace :: "string \<Rightarrow> string" where
  "TrimSpace s = TrimRightSpace (TrimLeftSpace s)"

subsection \<open>csv.Writer\<close>

definition fieldNeedsQuotes :: "char \<Rightarrow> string \<Rightarrow> bool" where
  "fieldNeedsQuotes comma field =
     (if field = [] then False
      else if field = [CHR 0x5C, CHR ''.''] then True
      else if list_ex (\<lambda>c. c = CHR 0x0A \<or> c = CHR 0x0D \<or> c = CHR 0x22 \<or> c = comma) field then True
      else leadingSpace field \<noteq> None)"

text \<open>The bytes written for the content of a quoted field (\<^verbatim>\<open>UseCRLF\<close> is false).\<close>

fun writeQuoted :: "string \<Rightarrow> string" where
  "writeQuoted [] = []"
| "writeQuoted (c # cs) =
     (if c = CHR 0x22 then [CHR 0x22, CHR 0x22]
      else if c = CHR 0x0D then [CHR 0x0D]
      else if c = CHR 0x0A then [CHR 0x0A]
      else [c]) @ writeQuoted cs"

definition writeField :: "char \<Rightarrow> string \<Rightarrow> string" where
  "writeField comma field =
     (if \<not> fieldNeedsQuotes comma field then field
      else [CHR 0x22] @ writeQuoted field @ [CHR 0x22])"

text \<open>The loop of \<^verbatim>\<open>Writer.Write\<close> over the fields; \<open>n\<close> is the index of the next field.\<close>

fun writeFields :: "char \<Rightarrow> nat \<Rightarrow> string list \<Rightarrow> string" where
  "writeFields comma n [] = []"
| "writeFields comma n (field # flds) =
     (if n > 0 then [comma] else []) @ writeField comma field @ writeFields comma (n + 1) flds"

definition Write :: "char \<Rightarrow> string list \<Rightarrow> string" where
  "Write comma record = writeFields comma 0 record @ [CHR 0x0A]"

definition WriteAll :: "char \<Rightarrow> string list list \<Rightarrow> string" where
  "WriteAll comma records = concat (map (Write comma) records)"

subsection \<open>csv.Reader\<close>

datatype csv_err = ErrInvalidDelim | ErrBareQuote | ErrQuote | ErrFieldCount

definition validDelim :: "char \<Rightarrow> bool" where
  "validDelim r = (r \<noteq> CHR 0x00 \<and> r \<noteq> CHR 0x22 \<and> r \<noteq> CHR 0x0D \<and> r \<noteq> CHR 0x0A)"

fun IndexByte :: "string \<Rightarrow> char \<Rightarrow> nat option" where
  "IndexByte [] c = None"
| "IndexByte (x # xs) c = (if x = c then Some 0 else map_option Suc (IndexByte xs c))"

definition lengthNL :: "string \<Rightarrow> nat" where
  "lengthNL b = (if b \<noteq> [] \<and> last b = CHR 0x0A then 1 else 0)"

text \<open>
  \<^verbatim>\<open>Reader.readLine\<close> on the input that is left: \<open>None\<close> at the end of the input, else the
  line and the input after it. A last line without a newline loses a trailing carriage
  return; a line ending in carriage return and newline keeps the newline only.
\<close>

definition readLine :: "string \<Rightarrow> (string \<times> string) option" where
  "readLine input =
     (if input = [] then None
      else case IndexByte input (CHR 0x0A) of
             None \<Rightarrow>
               Some (if last input = CHR 0x0D then butlast input else input, [])
           | Some i \<Rightarrow>
               (let line = take (i + 1) input; n = length line
                in Some (if n \<ge> 2 \<and> line ! (n - 2) = CHR 0x0D
                         then take (n - 2) line @ [CHR 0x0A] else line,
                         drop (i + 1) input)))"

text \<open>
  The lines that the successive calls of \<^verbatim>\<open>readLine\<close> return. A call depends on the input
  left only, so the reader's state is the list of the lines not read yet.
\<close>

function splitLines :: "string \<Rightarrow> string list" where
  "splitLines input =
     (case readLine input of
        None \<Rightarrow> []
      | Some (line, rest) \<Rightarrow> line # splitLines rest)"
  by pat_completeness auto
termination
  by (relation "measure length")
     (auto simp: readLine_def Let_def split: if_splits option.splits)

text \<open>The first loop of \<^verbatim>\<open>readRecord\<close>: empty lines are skipped; \<open>None\<close> is \<^verbatim>\<open>io.EOF\<close>.\<close>

fun skipEmpty :: "string list \<Rightarrow> (string \<times> string list) option" where
  "skipEmpty [] = None"
| "skipEmpty (line # ls) =
     (if length line = lengthNL line then skipEmpty ls else Some (line, ls))"

text \<open>
  The loop \<^verbatim>\<open>parseField\<close> of \<^verbatim>\<open>readRecord\<close>, and its inner loop over a quoted field.
  \<open>line\<close> is the rest of the current line, \<open>ls\<close> the lines not read yet, \<open>flds\<close> the
  fields of the record so far and \<open>cur\<close> the bytes of the quoted field so far. The result
  is an error, or the record and the lines after it.
\<close>

function parseField :: "char \<Rightarrow> string \<Rightarrow> string list \<Rightarrow> string list
                          \<Rightarrow> csv_err + (string list \<times> string list)"
  and parseQuoted :: "char \<Rightarrow> string \<Rightarrow> string list \<Rightarrow> string \<Rightarrow> string list
                          \<Rightarrow> csv_err + (string list \<times> string list)" where
  "parseField comma line ls flds =
     (if line = [] \<or> hd line \<noteq> CHR 0x22 then
        (case IndexByte line comma of
           Some i \<Rightarrow>
             (let field = take i line
              in if CHR 0x22 \<in> set field then Inl ErrBareQuote
                 else parseField comma (drop (i + 1) line) ls (flds @ [field]))
         | None \<Rightarrow>
             (let field = take (length line - lengthNL line) line
              in if CHR 0x22 \<in> set field then Inl ErrBareQuote
                 else Inr (flds @ [field], ls)))
      else parseQuoted comma (drop 1 line) ls [] flds)"
| "parseQuoted comma line ls cur flds =
     (case IndexByte line (CHR 0x22) of
        Some i \<Rightarrow>
          (let cur' = cur @ take i line; line' = drop (i + 1) line
           in if line' \<noteq> [] \<and> hd line' = CHR 0x22
                then parseQuoted comma (drop 1 line') ls (cur' @ [CHR 0x22]) flds
              else if line' \<noteq> [] \<and> hd line' = comma
                then parseField comma (drop 1 line') ls (flds @ [cur'])
              else if lengthNL line' = length line'
                then Inr (flds @ [cur'], ls)
              else Inl ErrQuote)
      | None \<Rightarrow>
          (if line \<noteq> [] then
             (case ls of
                [] \<Rightarrow> Inl ErrQuote
              | l # ls' \<Rightarrow> parseQuoted comma l ls' (cur @ line) flds)
           else Inl ErrQuote))"
  by pat_completeness auto
termination
proof -
  have found: "line \<noteq> []" if "IndexByte line c = Some i" for line c i
    using that by (cases line) auto
  show ?thesis
    by (relation "inv_image (less_than <*lex*> less_than)
          (\<lambda>x. case x of
                  Inl (comma, line, ls, flds) \<Rightarrow> (length ls, length line)
                | Inr (comma, line, ls, cur, flds) \<Rightarrow> (length ls, length line))")
       (auto dest: found)
qed

declare TrimLeftSpace.simps [simp del] TrimRightSpace.simps [simp del] splitLines.simps [simp del]
declare parseField.simps [simp del] parseQuoted.simps [simp del]

text \<open>
  \<^verbatim>\<open>Reader.ReadAll\<close>: records are read until \<^verbatim>\<open>io.EOF\<close>. \<open>fpr\<close> is the reader's
  \<^verbatim>\<open>FieldsPerRecord\<close>: zero before the first record, which sets it to its number of fields;
  a later record with another number of fields is \<^verbatim>\<open>ErrFieldCount\<close>. The delimiter is
  checked at the start of every \<^verbatim>\<open>readRecord\<close>.
\<close>

function readAll :: "char \<Rightarrow> nat \<Rightarrow> string list \<Rightarrow> string list list
                       \<Rightarrow> csv_err + string list list" where
  "readAll comma fpr ls records =
     (if \<not> validDelim comma then Inl ErrInvalidDelim
      else case skipEmpty ls of
             None \<Rightarrow> Inr records
           | Some (line, ls') \<Rightarrow>
               (case parseField comma line ls' [] of
                  Inl e \<Rightarrow> Inl e
                | Inr (rcd, ls'') \<Rightarrow>
                    if fpr > 0 \<and> length rcd \<noteq> fpr then Inl ErrFieldCount
                    else readAll comma (if fpr = 0 then length rcd else fpr) ls''
                           (records @ [rcd])))"
  by pat_completeness auto
termination
proof -
  have skipped: "length ls' < length ls" if "skipEmpty ls = Some (line, ls')" for ls line ls'
    using that by (induction ls) (auto split: if_splits)
  have parsed: "parseField comma line ls flds = Inr (r, ls') \<longrightarrow> length ls' \<le> length ls"
    and "parseQuoted comma line ls cur flds = Inr (r, ls') \<longrightarrow> length ls' \<le> length ls"
    for comma line ls flds cur r ls'
  proof (induction comma line ls flds and comma line ls cur flds
         rule: parseField_parseQuoted.induct)
    case (1 comma line ls flds)
    show ?case
      by (subst parseField.simps) (use 1 in \<open>auto simp: Let_def split: option.splits\<close>)
  next
    case (2 comma line ls cur flds)
    show ?case
      by (subst parseQuoted.simps)
         (use 2 in \<open>fastforce simp: Let_def split: option.splits list.splits if_splits\<close>)
  qed
  show ?thesis
  proof (relation "measure (\<lambda>(comma, fpr, ls, records). length ls)")
    show "wf (measure (\<lambda>(comma, fpr, ls, records). length ls))" by simp
  next
    fix comma :: char and fpr :: nat and ls records x2 line ls' x2a rcd ls''
    assume "skipEmpty ls = Some x2" "(line, ls') = x2"
      and "parseField comma line ls' [] = Inr x2a" "(rcd, ls'') = x2a"
    then have "length ls' < length ls" and "length ls'' \<le> length ls'"
      using skipped [of ls line ls'] parsed [of comma line ls' "[]" rcd ls''] by auto
    then show "((comma, if fpr = 0 then length rcd else fpr, ls'', records @ [rcd]),
                comma, fpr, ls, records)
               \<in> measure (\<lambda>(comma, fpr, ls, records). length ls)"
      by simp
  qed
qed

declare readAll.simps [simp del]

definition ReadAll :: "char \<Rightarrow> string \<Rightarrow> csv_err + string list list" where
  "ReadAll comma input = readAll comma 0 (splitLines input) []"

section \<open>The identifier codec and the resource functions (pkg/resources/udf.go)\<close>

text \<open>
  Modelled from the spec: the constant \<^verbatim>\<open>pipeIDDelimiter\<close>, declared in a file of the
  package that is not among the sources at hand. The spec gives the delimiter of the
  persisted identifier as the single character \<^verbatim>\<open>|\<close>.
\<close>

definition pipeIDDelimiter :: char where
  "pipeIDDelimiter = CHR ''|''"

record udfID =
  DatabaseName :: string
  SchemaName :: string
  Name :: string

text \<open>
  \<^verbatim>\<open>udfID.String\<close>. Writing to a \<^verbatim>\<open>bytes.Buffer\<close> does not fail and the delimiter is valid,
  so \<^verbatim>\<open>WriteAll\<close> returns no error here; the result type keeps the error of the signature.
\<close>

definition String :: "udfID \<Rightarrow> err + string" where
  "String si =
     (let dataIdentifiers = [[DatabaseName si, SchemaName si, Name si]];
          buf = WriteAll (CHR ''|'') dataIdentifiers;
          strUdfID = TrimSpace buf
      in Inr strUdfID)"

definition udfIDFromString :: "string \<Rightarrow> err + udfID" where
  "udfIDFromString stringID =
     (case ReadAll pipeIDDelimiter stringID of
        Inl e \<Rightarrow> Inl NotCSVCompatible
      | Inr lines \<Rightarrow>
          if length lines \<noteq> 1 then Inl OneLinePerPipe
          else if length (lines ! 0) \<noteq> 3 then Inl ThreeFieldsAllowed
          else Inr \<lparr>DatabaseName = lines ! 0 ! 0,
                    SchemaName = lines ! 0 ! 1,
                    Name = lines ! 0 ! 2\<rparr>)"

text \<open>
  The row that \<^verbatim>\<open>ScanUdf\<close> fills; a \<^verbatim>\<open>sql.NullString\<close> is an optional string, and its field
  \<^verbatim>\<open>String\<close> is empty when the value is null.
\<close>

record udf =
  Comment :: "string option"
  IsSecure :: bool
  RowName :: "string option"
  RowSchemaName :: "string option"
  Language :: "string option"
  RowArguments :: "string option"
  RowDatabaseName :: "string option"

definition NullString_String :: "string option \<Rightarrow> string" where
  "NullString_String v = (case v of None \<Rightarrow> [] | Some s \<Rightarrow> s)"

text \<open>
  The database is outside the program. It is a state of any type \<open>'s\<close> with two operations:
  \<^verbatim>\<open>snowflake.Exec\<close>, which succeeds or fails and changes the state, and
  \<^verbatim>\<open>snowflake.QueryRow\<close> followed by \<^verbatim>\<open>ScanUdf\<close>, whose outcome is \<^verbatim>\<open>sql.ErrNoRows\<close>,
  another error, or a row.
\<close>

datatype scan = NoRows | ScanFailed | Row udf

record 's DB =
  Exec :: "string \<Rightarrow> 's \<Rightarrow> bool \<times> 's"
  QueryRow :: "string \<Rightarrow> 's \<Rightarrow> scan \<times> 's"

text \<open>
  \<^verbatim>\<open>schema.ResourceData\<close> as far as the functions here use it: the identifier (\<^verbatim>\<open>d.Id\<close>,
  \<^verbatim>\<open>d.SetId\<close>), the attributes of \<^verbatim>\<open>udfSchema\<close> (\<^verbatim>\<open>d.Get\<close>, \<^verbatim>\<open>d.Set\<close>; a \<^verbatim>\<open>d.Set\<close> of a
  value of the attribute's type does not fail) and what \<^verbatim>\<open>d.HasChange\<close> answers for the two
  attributes \<^verbatim>\<open>UpdateUdf\<close> asks about. \<^verbatim>\<open>d.GetOk\<close> answers \<^verbatim>\<open>ok\<close> for a value other than the
  zero value of its type.
\<close>

record ResourceData =
  Id :: string
  d_name :: string
  d_database :: string
  d_schema :: string
  d_or_replace :: bool
  d_is_secure :: bool
  d_return_type :: string
  d_language :: string
  d_argument :: "(string \<times> string) list"
  d_body :: string
  HasChange_name :: bool
  HasChange_is_secure :: bool

definition ReadUdf :: "'s DB \<Rightarrow> ResourceData \<Rightarrow> 's \<Rightarrow> err option \<times> ResourceData \<times> 's" where
  "ReadUdf dbc d st =
     (case udfIDFromString (Id d) of
        Inl e \<Rightarrow> (Some e, d, st)
      | Inr uid \<Rightarrow>
          (let dbName = DatabaseName uid; sch = SchemaName uid; nm = Name uid;
               q = Show (WithSchema sch (WithDB dbName (Udf nm)))
           in case QueryRow dbc q st of
                (NoRows, st') \<Rightarrow> (None, d\<lparr>Id := []\<rparr>, st')
              | (ScanFailed, st') \<Rightarrow> (Some ScanError, d, st')
              | (Row v, st') \<Rightarrow>
                  (None,
                   d\<lparr>d_name := NullString_String (RowName v),
                     d_is_secure := IsSecure v,
                     d_language := NullString_String (Language v),
                     d_schema := NullString_String (RowSchemaName v),
                     d_database := NullString_String (RowDatabaseName v)\<rparr>,
                   st')))"

definition CreateUdf :: "(string \<Rightarrow> string) \<Rightarrow> 's DB \<Rightarrow> ResourceData \<Rightarrow> 's
                           \<Rightarrow> err option \<times> ResourceData \<times> 's" where
  "CreateUdf esc dbc d st =
     (let nm = d_name d; sch = d_schema d; database = d_database d; b = d_body d;
          args = map (\<lambda>(n, t). \<lparr>arg_name = n, arg_type = t\<rparr>) (d_argument d);
          builder = WithArguments args (WithBody b (WithSchema sch (WithDB database (Udf nm))));
          builder = (if d_or_replace d then WithReplace builder else builder);
          builder = (if d_is_secure d then WithSecure builder else builder);
          builder = (if d_return_type d \<noteq> [] then WithReturnType (d_return_type d) builder
                     else builder);
          builder = (if d_language d \<noteq> [] then WithLanguage (d_language d) builder
                     else builder)
      in case Create esc builder of
           Inl e \<Rightarrow> (Some e, d, st)
         | Inr q \<Rightarrow>
             (case Exec dbc q st of
                (False, st') \<Rightarrow> (Some (ExecError (''error creating Udf '' @ nm)), d, st')
              | (True, st') \<Rightarrow>
                  (case String \<lparr>DatabaseName = database, SchemaName = sch, Name = nm\<rparr> of
                     Inl e \<Rightarrow> (Some e, d, st')
                   | Inr dataIDInput \<Rightarrow> ReadUdf dbc (d\<lparr>Id := dataIDInput\<rparr>) st')))"

text \<open>
  The builder as \<^verbatim>\<open>CreateUdf\<close> has configured it when it calls \<^verbatim>\<open>Create\<close>: the same steps
  as in \<^verbatim>\<open>CreateUdf\<close> above, named so that theorems can speak of the statement rendered.
\<close>

definition CreateUdf_builder :: "ResourceData \<Rightarrow> UdfBuilder" where
  "CreateUdf_builder d =
     (let nm = d_name d; sch = d_schema d; database = d_database d; b = d_body d;
          args = map (\<lambda>(n, t). \<lparr>arg_name = n, arg_type = t\<rparr>) (d_argument d);
          builder = WithArguments args (WithBody b (WithSchema sch (WithDB database (Udf nm))));
          builder = (if d_or_replace d then WithReplace builder else builder);
          builder = (if d_is_secure d then WithSecure builder else builder);
          builder = (if d_return_type d \<noteq> [] then WithReturnType (d_return_type d) builder
                     else builder);
          builder = (if d_language d \<noteq> [] then WithLanguage (d_language d) builder
                     else builder)
      in builder)"

text \<open>
  \<^verbatim>\<open>UpdateUdf\<close>. The builder is changed by \<^verbatim>\<open>Rename\<close> and used again by \<^verbatim>\<open>Secure\<close> and
  \<^verbatim>\<open>Unsecure\<close>. The two blocks of the source are the two steps below; each returns early on
  an error, with the resource data as it is at that point.
\<close>

definition UpdateUdf_rename ::
    "(string \<Rightarrow> string) \<Rightarrow> 's DB \<Rightarrow> string \<Rightarrow> string \<Rightarrow> UdfBuilder \<Rightarrow> ResourceData \<Rightarrow> 's
       \<Rightarrow> err option \<times> UdfBuilder \<times> ResourceData \<times> 's" where
  "UpdateUdf_rename esc dbc dbName sch builder d st =
     (if HasChange_name d then
        (let nm = d_name d
         in case Rename esc nm builder of
              (Inl e, builder') \<Rightarrow> (Some e, builder', d, st)
            | (Inr q, builder') \<Rightarrow>
                (case Exec dbc q st of
                   (False, st') \<Rightarrow>
                     (Some (ExecError (''error renaming Udf '' @ Id d)), builder', d, st')
                 | (True, st') \<Rightarrow>
                     (None, builder', d\<lparr>Id := dbName @ ''|'' @ sch @ ''|'' @ nm\<rparr>, st')))
      else (None, builder, d, st))"

definition UpdateUdf_secure ::
    "(string \<Rightarrow> string) \<Rightarrow> 's DB \<Rightarrow> UdfBuilder \<Rightarrow> ResourceData \<Rightarrow> 's
       \<Rightarrow> err option \<times> ResourceData \<times> 's" where
  "UpdateUdf_secure esc dbc builder d st =
     (if HasChange_is_secure d then
        (if d_is_secure d then
           (case Secure esc builder of
              Inl e \<Rightarrow> (Some e, d, st)
            | Inr q \<Rightarrow>
                (case Exec dbc q st of
                   (False, st') \<Rightarrow>
                     (Some (ExecError (''error setting secure for Udf '' @ Id d)), d, st')
                 | (True, st') \<Rightarrow> (None, d, st')))
         else
           (case Unsecure esc builder of
              Inl e \<Rightarrow> (Some e, d, st)
            | Inr q \<Rightarrow>
                (case Exec dbc q st of
                   (False, st') \<Rightarrow>
                     (Some (ExecError (''error unsetting secure for Udf '' @ Id d)), d, st')
                 | (True, st') \<Rightarrow> (None, d, st'))))
      else (None, d, st))"

definition UpdateUdf :: "(string \<Rightarrow> string) \<Rightarrow> 's DB \<Rightarrow> ResourceData \<Rightarrow> 's
                           \<Rightarrow> err option \<times> ResourceData \<times> 's" where
  "UpdateUdf esc dbc d st =
     (case udfIDFromString (Id d) of
        Inl e \<Rightarrow> (Some e, d, st)
      | Inr uid \<Rightarrow>
          (let dbName = DatabaseName uid; sch = SchemaName uid; nm = Name uid;
               builder = WithSchema sch (WithDB dbName (Udf nm))
           in case UpdateUdf_rename esc dbc dbName sch builder d st of
                (Some e, builder', d', st') \<Rightarrow> (Some e, d', st')
              | (None, builder', d', st') \<Rightarrow>
                  (case UpdateUdf_secure esc dbc builder' d' st' of
                     (Some e, d'', st'') \<Rightarrow> (Some e, d'', st'')
                   | (None, d'', st'') \<Rightarrow> ReadUdf dbc d'' st'')))"

section \<open>Predicates and fixtures of the proofs\<close>

text \<open>A string in which no carriage return is directly followed by a newline.\<close>

fun noCRLF :: "string \<Rightarrow> bool" where
  "noCRLF (c # c' # cs) = (\<not> (c = CHR 0x0D \<and> c' = CHR 0x0A) \<and> noCRLF (c' # cs))"
| "noCRLF cs = True"

text \<open>
  A text as the reader's lines hold it: every carriage return directly followed by a
  newline is dropped (\<^verbatim>\<open>readLine\<close> does so at the end of each line).
\<close>

fun normalizeCRLF :: "string \<Rightarrow> string" where
  "normalizeCRLF (c # c' # cs) =
     (if c = CHR 0x0D \<and> c' = CHR 0x0A then CHR 0x0A # normalizeCRLF cs
      else c # normalizeCRLF (c' # cs))"
| "normalizeCRLF cs = cs"

text \<open>
  The current line and the lines not read yet, as the reader holds them while it parses:
  every line but the last is not empty and ends in its only newline; the last has no
  newline before its last byte.
\<close>

fun split_shape :: "string list \<Rightarrow> bool" where
  "split_shape [] = True"
| "split_shape [l] = (CHR 0x0A \<notin> set (butlast l))"
| "split_shape (l # l' # ls) =
     (l \<noteq> [] \<and> last l = CHR 0x0A \<and> CHR 0x0A \<notin> set (butlast l) \<and> split_shape (l' # ls))"


text \<open>
  The input, the row and the mock database of the repository's test \<^verbatim>\<open>TestUdfCreate\<close>:
  the database accepts the one statement the test expects and answers the one expected
  query with the test's row (which has no column \<^verbatim>\<open>comment\<close> nor \<^verbatim>\<open>database_name\<close>).
\<close>

definition TestUdfCreate_in :: ResourceData where
  "TestUdfCreate_in =
     \<lparr>Id = [], d_name = ''good_name'', d_database = ''test_db'', d_schema = ''test_schema'',
       d_or_replace = False, d_is_secure = True, d_return_type = ''VARIANT'',
       d_language = ''javascript'',
       d_argument = [(''arg1'', ''OBJECT''), (''arg2'', ''VARCHAR'')],
       d_body = ''return 1;'', HasChange_name = False, HasChange_is_secure = False\<rparr>"

definition expectReadUdf_row :: udf where
  "expectReadUdf_row =
     \<lparr>Comment = None, IsSecure = False, RowName = Some ''good_name'',
       RowSchemaName = Some ''test_schema'', Language = Some ''language'',
       RowArguments = Some ''good_name(OBJECT, VARCHAR) RETURN VARIANT'',
       RowDatabaseName = None\<rparr>"

definition mockDb :: "string \<Rightarrow> string \<Rightarrow> unit DB" where
  "mockDb execStmt queryStmt =
     \<lparr>Exec = \<lambda>q st. (q = execStmt, st),
       QueryRow = \<lambda>q st. (if q = queryStmt then Row expectReadUdf_row else ScanFailed, st)\<rparr>"

section \<open>What the statement builder renders\<close>

lemma QualifiedName_scoped:
  "db vb \<noteq> [] \<Longrightarrow> schema vb \<noteq> [] \<Longrightarrow>
     QualifiedName vb = Inr (''\"'' @ db vb @ ''\".\"'' @ schema vb @ ''\".\"'' @ name vb @ ''\"'')"
  by (simp add: QualifiedName_def)

lemma QualifiedName_unscoped:
  "db vb = [] \<or> schema vb = [] \<Longrightarrow> QualifiedName vb = Inl MissingScope"
  by (auto simp: QualifiedName_def)

lemma typesDefinitions_types:
  "getArgumentTypesDefinitions esc args =
     ''('' @ Join (map (\<lambda>a. esc (arg_type a)) args) '', '' @ '')''"
  by (simp add: getArgumentTypesDefinitions_def)

lemma definitions_pairs:
  "getArgumentDefinitions esc args =
     ''('' @ Join (map (\<lambda>a. ''\"'' @ esc (arg_name a) @ ''\" '' @ esc (arg_type a)) args) '', ''
       @ '')''"
  by (simp add: getArgumentDefinitions_def)

text \<open>
  C1 (the claim fails on the code). \<^verbatim>\<open>QualifiedName\<close> inserts the database, the schema and
  the name as they are, with no call of the escaping function: a double quote inside the
  name reaches the statement unchanged, in \<^verbatim>\<open>QualifiedName\<close> and in \<^verbatim>\<open>Create\<close> (whatever
  the escaping function is), and two different scopes render the same qualified name.
\<close>

theorem QualifiedName_not_escaped:
  "QualifiedName (WithSchema ''sc'' (WithDB ''db'' (Udf ''n\"x''))) = Inr ''\"db\".\"sc\".\"n\"x\"'' \<and>
   Create esc (WithSchema ''sc'' (WithDB ''db'' (Udf ''n\"x'')))
     = Inr ''CREATE FUNCTION \"db\".\"sc\".\"n\"x\" () AS $$  $$'' \<and>
   QualifiedName (WithSchema ''b'' (WithDB ''a'' (Udf ''c\".\"d'')))
     = QualifiedName (WithSchema ''b\".\"c'' (WithDB ''a'' (Udf ''d'')))"
  by (simp add: QualifiedName_def Create_def getArgumentDefinitions_def
        WithSchema_def WithDB_def Udf_def)

text \<open>
  C4. With a database and a schema, \<^verbatim>\<open>Create\<close> renders the clauses in the fixed order
  CREATE, OR REPLACE, SECURE, FUNCTION and the qualified name, the parenthesised list of
  quoted argument names with their types, RETURNS, LANGUAGE, AS and the body between
  dollar signs; a clause that is not asked for is absent and the parentheses are always
  there. The two statements of the spec come out character by character, for an escaping
  function that leaves the argument names and the types of the examples as they are.
\<close>

theorem Create_template:
  "(db vb \<noteq> [] \<and> schema vb \<noteq> [] \<longrightarrow>
      (\<exists>qn. QualifiedName vb = Inr qn \<and>
         Create esc vb =
           Inr (''CREATE'' @ (if replace vb then '' OR REPLACE'' else [])
                @ (if secure vb then '' SECURE'' else [])
                @ '' FUNCTION '' @ qn @ '' (''
                @ Join (map (\<lambda>a. ''\"'' @ esc (arg_name a) @ ''\" '' @ esc (arg_type a))
                          (arguments vb)) '', ''
                @ '')''
                @ (if returnType vb \<noteq> [] then '' RETURNS '' @ esc (returnType vb) else [])
                @ (if language vb \<noteq> [] then '' LANGUAGE '' @ esc (language vb) else [])
                @ '' AS $$ '' @ body vb @ '' $$''))) \<and>
   (esc ''arg1'' = ''arg1'' \<and> esc ''OBJECT'' = ''OBJECT'' \<longrightarrow>
      Create esc \<lparr>name = ''fn'', db = ''db'', schema = ''schema'', replace = False,
                  secure = False, language = [], returnType = [],
                  arguments = [\<lparr>arg_name = ''arg1'', arg_type = ''OBJECT''\<rparr>],
                  body = ''body text''\<rparr>
        = Inr ''CREATE FUNCTION \"db\".\"schema\".\"fn\" (\"arg1\" OBJECT) AS $$ body text $$'') \<and>
   (esc ''arg1'' = ''arg1'' \<and> esc ''OBJECT'' = ''OBJECT'' \<and> esc ''arg2'' = ''arg2'' \<and>
    esc ''VARCHAR'' = ''VARCHAR'' \<and> esc ''VARIANT'' = ''VARIANT'' \<longrightarrow>
      Create esc \<lparr>name = ''fn'', db = ''db'', schema = ''schema'', replace = False,
                  secure = True, language = [], returnType = ''VARIANT'',
                  arguments = [\<lparr>arg_name = ''arg1'', arg_type = ''OBJECT''\<rparr>,
                               \<lparr>arg_name = ''arg2'', arg_type = ''VARCHAR''\<rparr>],
                  body = b\<rparr>
        = Inr (''CREATE SECURE FUNCTION \"db\".\"schema\".\"fn\" (\"arg1\" OBJECT, \"arg2\" VARCHAR) RETURNS VARIANT AS $$ ''
               @ b @ '' $$''))"
proof (intro conjI impI)
  assume "db vb \<noteq> [] \<and> schema vb \<noteq> []"
  then show "\<exists>qn. QualifiedName vb = Inr qn \<and>
     Create esc vb =
       Inr (''CREATE'' @ (if replace vb then '' OR REPLACE'' else [])
            @ (if secure vb then '' SECURE'' else [])
            @ '' FUNCTION '' @ qn @ '' (''
            @ Join (map (\<lambda>a. ''\"'' @ esc (arg_name a) @ ''\" '' @ esc (arg_type a))
                      (arguments vb)) '', ''
            @ '')''
            @ (if returnType vb \<noteq> [] then '' RETURNS '' @ esc (returnType vb) else [])
            @ (if language vb \<noteq> [] then '' LANGUAGE '' @ esc (language vb) else [])
            @ '' AS $$ '' @ body vb @ '' $$'')"
    by (simp add: Create_def QualifiedName_scoped definitions_pairs)
next
  assume "esc ''arg1'' = ''arg1'' \<and> esc ''OBJECT'' = ''OBJECT''"
  then show "Create esc \<lparr>name = ''fn'', db = ''db'', schema = ''schema'', replace = False,
                  secure = False, language = [], returnType = [],
                  arguments = [\<lparr>arg_name = ''arg1'', arg_type = ''OBJECT''\<rparr>],
                  body = ''body text''\<rparr>
        = Inr ''CREATE FUNCTION \"db\".\"schema\".\"fn\" (\"arg1\" OBJECT) AS $$ body text $$''"
    by (simp add: Create_def QualifiedName_def definitions_pairs)
next
  assume "esc ''arg1'' = ''arg1'' \<and> esc ''OBJECT'' = ''OBJECT'' \<and> esc ''arg2'' = ''arg2'' \<and>
    esc ''VARCHAR'' = ''VARCHAR'' \<and> esc ''VARIANT'' = ''VARIANT''"
  then show "Create esc \<lparr>name = ''fn'', db = ''db'', schema = ''schema'', replace = False,
                  secure = True, language = [], returnType = ''VARIANT'',
                  arguments = [\<lparr>arg_name = ''arg1'', arg_type = ''OBJECT''\<rparr>,
                               \<lparr>arg_name = ''arg2'', arg_type = ''VARCHAR''\<rparr>],
                  body = b\<rparr>
        = Inr (''CREATE SECURE FUNCTION \"db\".\"schema\".\"fn\" (\"arg1\" OBJECT, \"arg2\" VARCHAR) RETURNS VARIANT AS $$ ''
               @ b @ '' $$'')"
    by (simp add: Create_def QualifiedName_def definitions_pairs)
qed

theorem Create_template_witness:
  "Create (\<lambda>s. s) \<lparr>name = ''fn'', db = ''db'', schema = ''schema'', replace = False,
                  secure = False, language = [], returnType = [],
                  arguments = [\<lparr>arg_name = ''arg1'', arg_type = ''OBJECT''\<rparr>],
                  body = ''body text''\<rparr>
     = Inr ''CREATE FUNCTION \"db\".\"schema\".\"fn\" (\"arg1\" OBJECT) AS $$ body text $$'' \<and>
   Create (\<lambda>s. s) \<lparr>name = ''fn'', db = ''db'', schema = ''schema'', replace = False,
                  secure = True, language = [], returnType = ''VARIANT'',
                  arguments = [\<lparr>arg_name = ''arg1'', arg_type = ''OBJECT''\<rparr>,
                               \<lparr>arg_name = ''arg2'', arg_type = ''VARCHAR''\<rparr>],
                  body = ''return 1;''\<rparr>
     = Inr ''CREATE SECURE FUNCTION \"db\".\"schema\".\"fn\" (\"arg1\" OBJECT, \"arg2\" VARCHAR) RETURNS VARIANT AS $$ return 1; $$'' \<and>
   (\<exists>qn. QualifiedName (WithReplace (WithSchema ''s'' (WithDB ''d'' (Udf ''f'')))) = Inr qn \<and>
      Create (\<lambda>s. s) (WithReplace (WithSchema ''s'' (WithDB ''d'' (Udf ''f''))))
        = Inr (''CREATE OR REPLACE FUNCTION '' @ qn @ '' () AS $$  $$''))"
  using Create_template [of "WithReplace (WithSchema ''s'' (WithDB ''d'' (Udf ''f'')))" "\<lambda>s. s" "''return 1;''"]
  by (simp add: WithReplace_def WithSchema_def WithDB_def Udf_def)

text \<open>
  C5. With a database and a schema, \<^verbatim>\<open>Rename\<close> succeeds; its statement is ALTER FUNCTION,
  the qualified name before the call, the parenthesised list of the (escaped) argument
  types alone, RENAME TO and the qualified name after the call; the builder's name is the
  new name afterwards, and nothing else of the builder changes.
\<close>

theorem Rename_statement:
  "db vb \<noteq> [] \<and> schema vb \<noteq> [] \<longrightarrow>
     (\<exists>oldName qn.
        QualifiedName vb = Inr oldName \<and>
        QualifiedName (snd (Rename esc newName vb)) = Inr qn \<and>
        qn = ''\"'' @ db vb @ ''\".\"'' @ schema vb @ ''\".\"'' @ newName @ ''\"'' \<and>
        fst (Rename esc newName vb) =
          Inr (''ALTER FUNCTION '' @ oldName @ '' (''
               @ Join (map (\<lambda>a. esc (arg_type a)) (arguments vb)) '', ''
               @ '') RENAME TO '' @ qn) \<and>
        snd (Rename esc newName vb) = vb\<lparr>name := newName\<rparr>)"
  by (simp add: Rename_def QualifiedName_def typesDefinitions_types)

theorem Rename_statement_witness:
  "fst (Rename (\<lambda>s. s) ''new''
          \<lparr>name = ''fn'', db = ''db'', schema = ''schema'', replace = False, secure = False,
            language = [], returnType = [],
            arguments = [\<lparr>arg_name = ''arg1'', arg_type = ''OBJECT''\<rparr>,
                         \<lparr>arg_name = ''arg2'', arg_type = ''VARCHAR''\<rparr>],
            body = []\<rparr>)
     = Inr ''ALTER FUNCTION \"db\".\"schema\".\"fn\" (OBJECT, VARCHAR) RENAME TO \"db\".\"schema\".\"new\"'' \<and>
   QualifiedName (snd (Rename (\<lambda>s. s) ''new''
          \<lparr>name = ''fn'', db = ''db'', schema = ''schema'', replace = False, secure = False,
            language = [], returnType = [],
            arguments = [\<lparr>arg_name = ''arg1'', arg_type = ''OBJECT''\<rparr>,
                         \<lparr>arg_name = ''arg2'', arg_type = ''VARCHAR''\<rparr>],
            body = []\<rparr>))
     = Inr ''\"db\".\"schema\".\"new\"''"
  using Rename_statement [of
          "\<lparr>name = ''fn'', db = ''db'', schema = ''schema'', replace = False, secure = False,
            language = [], returnType = [],
            arguments = [\<lparr>arg_name = ''arg1'', arg_type = ''OBJECT''\<rparr>,
                         \<lparr>arg_name = ''arg2'', arg_type = ''VARCHAR''\<rparr>],
            body = []\<rparr>" "\<lambda>s. s" "''new''"]
  by (simp add: QualifiedName_def)

text \<open>
  C6. \<^verbatim>\<open>QualifiedName\<close> returns an error exactly when the database or the schema is empty,
  whatever the name is; the error is the missing-scope error. With both set it returns the
  three components, each between double quotes, joined by dots.
\<close>

theorem QualifiedName_error_iff:
  "(isl (QualifiedName vb) \<longleftrightarrow> db vb = [] \<or> schema vb = []) \<and>
   (db vb = [] \<or> schema vb = [] \<longrightarrow> QualifiedName vb = Inl MissingScope) \<and>
   (db vb \<noteq> [] \<and> schema vb \<noteq> [] \<longrightarrow>
      QualifiedName vb =
        Inr (''\"'' @ db vb @ ''\".\"'' @ schema vb @ ''\".\"'' @ name vb @ ''\"''))"
  by (simp add: QualifiedName_def)

theorem QualifiedName_error_iff_witness:
  "QualifiedName (WithSchema ''schema'' (WithDB ''db'' (Udf ''udf'')))
     = Inr ''\"db\".\"schema\".\"udf\"'' \<and>
   QualifiedName (WithSchema ''schema'' (Udf [])) = Inl MissingScope \<and>
   QualifiedName (WithDB ''db'' (Udf [])) = Inl MissingScope"
  using QualifiedName_error_iff [of "WithSchema ''schema'' (WithDB ''db'' (Udf ''udf''))"]
    QualifiedName_error_iff [of "WithSchema ''schema'' (Udf [])"]
    QualifiedName_error_iff [of "WithDB ''db'' (Udf [])"]
  by (simp add: WithSchema_def WithDB_def Udf_def)

text \<open>
  C9. With a database and a schema, \<^verbatim>\<open>Secure\<close> and \<^verbatim>\<open>Unsecure\<close> both succeed, and their
  statements are one and the same text followed by SET SECURE in the one and by
  UNSET SECURE in the other.
\<close>

theorem Secure_Unsecure_differ_in_last_token:
  "db vb \<noteq> [] \<and> schema vb \<noteq> [] \<longrightarrow>
     (\<exists>qn. QualifiedName vb = Inr qn \<and>
        Secure esc vb =
          Inr ((''ALTER FUNCTION '' @ qn @ '' (''
                @ Join (map (\<lambda>a. esc (arg_type a)) (arguments vb)) '', '' @ '') '')
               @ ''SET SECURE'') \<and>
        Unsecure esc vb =
          Inr ((''ALTER FUNCTION '' @ qn @ '' (''
                @ Join (map (\<lambda>a. esc (arg_type a)) (arguments vb)) '', '' @ '') '')
               @ ''UNSET SECURE''))"
  by (simp add: Secure_def Unsecure_def QualifiedName_def typesDefinitions_types)

theorem Secure_Unsecure_differ_in_last_token_witness:
  "Secure (\<lambda>s. s)
     (WithArguments [\<lparr>arg_name = ''arg1'', arg_type = ''OBJECT''\<rparr>,
                     \<lparr>arg_name = ''arg12'', arg_type = ''VARCHAR''\<rparr>]
        (WithSchema ''some_schema'' (WithDB ''some_database'' (Udf ''test''))))
     = Inr ''ALTER FUNCTION \"some_database\".\"some_schema\".\"test\" (OBJECT, VARCHAR) SET SECURE'' \<and>
   Unsecure (\<lambda>s. s)
     (WithArguments [\<lparr>arg_name = ''arg1'', arg_type = ''OBJECT''\<rparr>,
                     \<lparr>arg_name = ''arg12'', arg_type = ''VARCHAR''\<rparr>]
        (WithSchema ''some_schema'' (WithDB ''some_database'' (Udf ''test''))))
     = Inr ''ALTER FUNCTION \"some_database\".\"some_schema\".\"test\" (OBJECT, VARCHAR) UNSET SECURE''"
  using Secure_Unsecure_differ_in_last_token [of
          "WithArguments [\<lparr>arg_name = ''arg1'', arg_type = ''OBJECT''\<rparr>,
                          \<lparr>arg_name = ''arg12'', arg_type = ''VARCHAR''\<rparr>]
             (WithSchema ''some_schema'' (WithDB ''some_database'' (Udf ''test'')))" "\<lambda>s. s"]
  by (simp add: WithArguments_def WithSchema_def WithDB_def Udf_def QualifiedName_def)

text \<open>
  C10. \<^verbatim>\<open>Show\<close> has no error result: for every builder it is the SHOW FUNCTIONS statement
  with the name, the database and the schema inserted as they are, also when the database
  or the schema is empty. \<^verbatim>\<open>Create\<close>, \<^verbatim>\<open>Rename\<close>, \<^verbatim>\<open>Secure\<close>, \<^verbatim>\<open>Unsecure\<close> and \<^verbatim>\<open>Drop\<close>
  all fail with the missing-scope error then.
\<close>

theorem Show_never_fails:
  "Show vb = ''SHOW FUNCTIONS LIKE '' @ [CHR 0x27] @ name vb @ [CHR 0x27]
              @ '' IN SCHEMA \"'' @ db vb @ ''\".\"'' @ schema vb @ ''\"'' \<and>
   (db vb = [] \<or> schema vb = [] \<longrightarrow>
      Create esc vb = Inl MissingScope \<and>
      fst (Rename esc newName vb) = Inl MissingScope \<and>
      Secure esc vb = Inl MissingScope \<and>
      Unsecure esc vb = Inl MissingScope \<and>
      Drop esc vb = Inl MissingScope)"
  by (auto simp: Show_def Create_def Rename_def Secure_def Unsecure_def Drop_def
        QualifiedName_unscoped)

theorem Show_never_fails_witness:
  "Show (Udf ''fn'') = ''SHOW FUNCTIONS LIKE '' @ [CHR 0x27] @ ''fn'' @ [CHR 0x27]
                        @ '' IN SCHEMA \"\".\"\"'' \<and>
   Create (\<lambda>s. s) (Udf ''fn'') = Inl MissingScope \<and>
   fst (Rename (\<lambda>s. s) ''g'' (Udf ''fn'')) = Inl MissingScope \<and>
   Secure (\<lambda>s. s) (Udf ''fn'') = Inl MissingScope \<and>
   Unsecure (\<lambda>s. s) (Udf ''fn'') = Inl MissingScope \<and>
   Drop (\<lambda>s. s) (Udf ''fn'') = Inl MissingScope"
  using Show_never_fails [of "Udf ''fn''" "\<lambda>s. s" "''g''"]
  by (simp add: Udf_def)

section \<open>Decoding and the read path\<close>

lemma decode_two_fields: "udfIDFromString ''a|b'' = Inl ThreeFieldsAllowed"
  by code_simp

lemma decode_four_fields: "udfIDFromString ''a|b|c|d'' = Inl ThreeFieldsAllowed"
  by code_simp

lemma read_bare_quote: "ReadAll pipeIDDelimiter ''a\"b'' = Inl ErrBareQuote"
  by code_simp

lemma read_two_records:
  "ReadAll pipeIDDelimiter [CHR ''a'', CHR 0x0A, CHR ''b''] = Inr [[''a''], [''b'']]"
  by code_simp

lemma read_two_fields: "ReadAll pipeIDDelimiter ''a|b'' = Inr [[''a'', ''b'']]"
  by code_simp

lemma decode_plain:
  "udfIDFromString ''db|sc|fn'' = Inr \<lparr>DatabaseName = ''db'', SchemaName = ''sc'', Name = ''fn''\<rparr>"
  by code_simp

text \<open>
  C7. \<^verbatim>\<open>udfIDFromString\<close> fails when the reader reports an error, when the input has a
  number of records other than one, and when its one record has a number of fields other
  than three. Decoding \<^verbatim>\<open>a|b\<close> and decoding \<^verbatim>\<open>a|b|c|d\<close> fail.
\<close>

theorem udfIDFromString_malformed:
  "(\<forall>e. ReadAll pipeIDDelimiter s = Inl e \<longrightarrow> udfIDFromString s = Inl NotCSVCompatible) \<and>
   (\<forall>ls. ReadAll pipeIDDelimiter s = Inr ls \<and> length ls \<noteq> 1 \<longrightarrow>
          udfIDFromString s = Inl OneLinePerPipe) \<and>
   (\<forall>r. ReadAll pipeIDDelimiter s = Inr [r] \<and> length r \<noteq> 3 \<longrightarrow>
         udfIDFromString s = Inl ThreeFieldsAllowed) \<and>
   udfIDFromString ''a|b'' = Inl ThreeFieldsAllowed \<and>
   udfIDFromString ''a|b|c|d'' = Inl ThreeFieldsAllowed"
proof (intro conjI)
  show "\<forall>e. ReadAll pipeIDDelimiter s = Inl e \<longrightarrow> udfIDFromString s = Inl NotCSVCompatible"
    by (simp add: udfIDFromString_def)
  show "\<forall>ls. ReadAll pipeIDDelimiter s = Inr ls \<and> length ls \<noteq> 1 \<longrightarrow>
          udfIDFromString s = Inl OneLinePerPipe"
    by (simp add: udfIDFromString_def)
  show "\<forall>r. ReadAll pipeIDDelimiter s = Inr [r] \<and> length r \<noteq> 3 \<longrightarrow>
         udfIDFromString s = Inl ThreeFieldsAllowed"
    by (simp add: udfIDFromString_def)
  show "udfIDFromString ''a|b'' = Inl ThreeFieldsAllowed"
    by (rule decode_two_fields)
  show "udfIDFromString ''a|b|c|d'' = Inl ThreeFieldsAllowed"
    by (rule decode_four_fields)
qed

theorem udfIDFromString_malformed_witness:
  "udfIDFromString ''a\"b'' = Inl NotCSVCompatible \<and>
   udfIDFromString [CHR ''a'', CHR 0x0A, CHR ''b''] = Inl OneLinePerPipe \<and>
   udfIDFromString ''a|b'' = Inl ThreeFieldsAllowed"
  using udfIDFromString_malformed [of "''a\"b''"]
    udfIDFromString_malformed [of "[CHR ''a'', CHR 0x0A, CHR ''b'']"]
    udfIDFromString_malformed [of "''a|b''"]
    read_bare_quote read_two_records read_two_fields
  by simp

text \<open>
  C8. When the identifier decodes and the query of the \<^verbatim>\<open>Show\<close> statement built from it
  finds no row, \<^verbatim>\<open>ReadUdf\<close> returns no error and the identifier is the empty string
  afterwards; nothing else of the resource data changes.
\<close>

theorem ReadUdf_no_rows:
  "udfIDFromString (Id d) = Inr uid \<and>
   QueryRow dbc (Show (WithSchema (SchemaName uid) (WithDB (DatabaseName uid) (Udf (Name uid))))) st
     = (NoRows, st')
   \<longrightarrow> ReadUdf dbc d st = (None, d\<lparr>Id := []\<rparr>, st')"
  by (simp add: ReadUdf_def)

theorem ReadUdf_no_rows_witness:
  "ReadUdf \<lparr>Exec = \<lambda>q s. (True, s), QueryRow = \<lambda>q s. (NoRows, s)\<rparr>
     \<lparr>Id = ''db|sc|fn'', d_name = ''fn'', d_database = ''db'', d_schema = ''sc'',
       d_or_replace = False, d_is_secure = False, d_return_type = ''VARIANT'',
       d_language = [], d_argument = [], d_body = ''return 1;'',
       HasChange_name = False, HasChange_is_secure = False\<rparr> ()
   = (None,
      \<lparr>Id = [], d_name = ''fn'', d_database = ''db'', d_schema = ''sc'',
       d_or_replace = False, d_is_secure = False, d_return_type = ''VARIANT'',
       d_language = [], d_argument = [], d_body = ''return 1;'',
       HasChange_name = False, HasChange_is_secure = False\<rparr>, ())"
  using ReadUdf_no_rows [of
          "\<lparr>Id = ''db|sc|fn'', d_name = ''fn'', d_database = ''db'', d_schema = ''sc'',
            d_or_replace = False, d_is_secure = False, d_return_type = ''VARIANT'',
            d_language = [], d_argument = [], d_body = ''return 1;'',
            HasChange_name = False, HasChange_is_secure = False\<rparr>"
          "\<lparr>DatabaseName = ''db'', SchemaName = ''sc'', Name = ''fn''\<rparr>"
          "\<lparr>Exec = \<lambda>q s. (True, s), QueryRow = \<lambda>q s. (NoRows, s)\<rparr>" "()" "()"]
    decode_plain
  by simp

section \<open>The round trip of the identifier codec\<close>

subsection \<open>White space and trimming\<close>

lemma spaceRune_chars:
  "w \<in> set spaceRunes \<Longrightarrow> w \<noteq> [] \<and> CHR ''|'' \<notin> set w \<and> CHR 0x22 \<notin> set w"
  by (auto simp: spaceRunes_def)

lemma leadingSpace_None: "leadingSpace s = None \<longleftrightarrow> (\<forall>w \<in> set spaceRunes. \<not> prefix w s)"
  by (auto simp: leadingSpace_def find_None_iff)

lemma trailingSpace_None: "trailingSpace s = None \<longleftrightarrow> (\<forall>w \<in> set spaceRunes. \<not> suffix w s)"
  by (auto simp: trailingSpace_def find_None_iff)

lemma leadingSpace_Cons:
  "c = CHR ''|'' \<or> c = CHR 0x22 \<Longrightarrow> leadingSpace (c # s) = None"
  unfolding leadingSpace_None
proof
  fix w assume c: "c = CHR ''|'' \<or> c = CHR 0x22" and w: "w \<in> set spaceRunes"
  show "\<not> prefix w (c # s)"
  proof
    assume "prefix w (c # s)"
    with spaceRune_chars [OF w] have "c \<in> set w" by (cases w) auto
    with c spaceRune_chars [OF w] show False by auto
  qed
qed

lemma leadingSpace_append:
  assumes "leadingSpace a = None" "a \<noteq> []" "c = CHR ''|''"
  shows "leadingSpace (a @ c # s) = None"
  unfolding leadingSpace_None
proof
  fix w assume w: "w \<in> set spaceRunes"
  show "\<not> prefix w (a @ c # s)"
  proof
    assume "prefix w (a @ c # s)"
    then consider "prefix w a" | us where "w = a @ us" "prefix us (c # s)"
      by (auto simp: prefix_append)
    then show False
    proof cases
      case 1
      with assms(1) w show False by (auto simp: leadingSpace_None)
    next
      case 2
      show False
      proof (cases us)
        case Nil
        with 2 assms(1) w show False by (auto simp: leadingSpace_None)
      next
        case (Cons u us')
        with 2 have "c \<in> set w" by auto
        with assms(3) spaceRune_chars [OF w] show False by auto
      qed
    qed
  qed
qed

lemma trailingSpace_snoc:
  "c = CHR ''|'' \<or> c = CHR 0x22 \<Longrightarrow> trailingSpace (s @ [c]) = None"
  unfolding trailingSpace_None
proof
  fix w assume c: "c = CHR ''|'' \<or> c = CHR 0x22" and w: "w \<in> set spaceRunes"
  show "\<not> suffix w (s @ [c])"
  proof
    assume "suffix w (s @ [c])"
    with spaceRune_chars [OF w] have "c \<in> set w"
      by (cases w rule: rev_cases) auto
    with c spaceRune_chars [OF w] show False by auto
  qed
qed

lemma trailingSpace_append:
  assumes "trailingSpace a = None" "a \<noteq> []" "c = CHR ''|''"
  shows "trailingSpace (s @ c # a) = None"
  unfolding trailingSpace_None
proof
  fix w assume w: "w \<in> set spaceRunes"
  show "\<not> suffix w (s @ c # a)"
  proof
    assume "suffix w (s @ c # a)"
    then have "suffix w ((s @ [c]) @ a)" by simp
    then consider "suffix w a" | us where "w = us @ a" "suffix us (s @ [c])"
      unfolding suffix_append [of w "s @ [c]" a] by blast
    then show False
    proof cases
      case 1
      with assms(1) w show False by (auto simp: trailingSpace_None)
    next
      case 2
      show False
      proof (cases us rule: rev_cases)
        case Nil
        with 2 assms(1) w show False by (auto simp: trailingSpace_None)
      next
        case (snoc us' u)
        with 2 have "c \<in> set w" by auto
        with assms(3) spaceRune_chars [OF w] show False by auto
      qed
    qed
  qed
qed

lemma TrimLeftSpace_id: "leadingSpace s = None \<Longrightarrow> TrimLeftSpace s = s"
  by (subst TrimLeftSpace.simps) simp

lemma TrimRightSpace_id: "trailingSpace s = None \<Longrightarrow> TrimRightSpace s = s"
  by (subst TrimRightSpace.simps) simp

lemma trailingSpace_newline: "trailingSpace (s @ [CHR 0x0A]) = Some [CHR 0x0A]"
  by (simp add: trailingSpace_def spaceRunes_def suffix_def)

lemma TrimRightSpace_newline:
  "trailingSpace s = None \<Longrightarrow> TrimRightSpace (s @ [CHR 0x0A]) = s"
  by (subst TrimRightSpace.simps) (simp add: trailingSpace_newline TrimRightSpace_id)


subsection \<open>What the writer produces\<close>

lemma unquoted_chars:
  assumes "\<not> fieldNeedsQuotes (CHR ''|'') f"
  shows "CHR 0x0A \<notin> set f" "CHR 0x0D \<notin> set f" "CHR 0x22 \<notin> set f" "CHR ''|'' \<notin> set f"
  using assms by (auto simp: fieldNeedsQuotes_def list_ex_iff split: if_splits)

lemma unquoted_leadingSpace:
  "\<not> fieldNeedsQuotes (CHR ''|'') f \<Longrightarrow> f \<noteq> [] \<Longrightarrow> leadingSpace f = None"
  by (auto simp: fieldNeedsQuotes_def split: if_splits)

lemma writeField_leadingSpace:
  "leadingSpace (writeField (CHR ''|'') f @ CHR ''|'' # r) = None"
proof (cases "fieldNeedsQuotes (CHR ''|'') f")
  case True
  then show ?thesis by (simp add: writeField_def leadingSpace_Cons)
next
  case False
  then show ?thesis
    by (cases "f = []")
       (simp_all add: writeField_def leadingSpace_Cons leadingSpace_append unquoted_leadingSpace)
qed

lemma writeField_trailingSpace:
  assumes "fieldNeedsQuotes (CHR ''|'') f \<or> trailingSpace f = None"
  shows "trailingSpace (p @ CHR ''|'' # writeField (CHR ''|'') f) = None"
proof (cases "fieldNeedsQuotes (CHR ''|'') f")
  case True
  have "trailingSpace ((p @ CHR ''|'' # CHR 0x22 # writeQuoted f) @ [CHR 0x22]) = None"
    by (rule trailingSpace_snoc) simp
  with True show ?thesis by (simp add: writeField_def)
next
  case False
  show ?thesis
  proof (cases "f = []")
    case True
    have "trailingSpace (p @ [CHR ''|'']) = None"
      by (rule trailingSpace_snoc) simp
    with True False show ?thesis by (simp add: writeField_def)
  next
    case nonempty: False
    with False assms show ?thesis
      by (simp add: writeField_def trailingSpace_append)
  qed
qed

lemma WriteAll_triple:
  "WriteAll (CHR ''|'') [[d, s, n]] =
     (writeField (CHR ''|'') d @ CHR ''|'' # writeField (CHR ''|'') s
        @ CHR ''|'' # writeField (CHR ''|'') n) @ [CHR 0x0A]"
  by (simp add: WriteAll_def Write_def)

lemma TrimSpace_encoding:
  assumes "fieldNeedsQuotes (CHR ''|'') n \<or> trailingSpace n = None"
  shows "TrimSpace (WriteAll (CHR ''|'') [[d, s, n]]) =
           writeField (CHR ''|'') d @ CHR ''|'' # writeField (CHR ''|'') s
             @ CHR ''|'' # writeField (CHR ''|'') n"
proof -
  let ?E = "writeField (CHR ''|'') d @ CHR ''|'' # writeField (CHR ''|'') s
              @ CHR ''|'' # writeField (CHR ''|'') n"
  have "leadingSpace (?E @ [CHR 0x0A]) = None"
    using writeField_leadingSpace [of d "writeField (CHR ''|'') s
              @ CHR ''|'' # writeField (CHR ''|'') n @ [CHR 0x0A]"] by simp
  then have left: "TrimLeftSpace (?E @ [CHR 0x0A]) = ?E @ [CHR 0x0A]"
    by (rule TrimLeftSpace_id)
  have "trailingSpace ?E = None"
    using writeField_trailingSpace [OF assms,
            of "writeField (CHR ''|'') d @ CHR ''|'' # writeField (CHR ''|'') s"] by simp
  then have "TrimRightSpace (?E @ [CHR 0x0A]) = ?E"
    by (rule TrimRightSpace_newline)
  with left show ?thesis
    by (simp only: TrimSpace_def WriteAll_triple)
qed

subsection \<open>Lines\<close>

lemma IndexByte_None: "IndexByte xs c = None \<longleftrightarrow> c \<notin> set xs"
  by (induction xs) auto

lemma IndexByte_first: "c \<notin> set a \<Longrightarrow> IndexByte (a @ c # b) c = Some (length a)"
  by (induction a) auto

lemma noCRLF_append:
  "noCRLF (a @ b) \<longleftrightarrow>
     noCRLF a \<and> noCRLF b \<and> \<not> (a \<noteq> [] \<and> b \<noteq> [] \<and> last a = CHR 0x0D \<and> hd b = CHR 0x0A)"
proof (induction a rule: noCRLF.induct)
  fix c c' cs
  assume "noCRLF ((c' # cs) @ b) \<longleftrightarrow>
     noCRLF (c' # cs) \<and> noCRLF b \<and>
     \<not> (c' # cs \<noteq> [] \<and> b \<noteq> [] \<and> last (c' # cs) = CHR 0x0D \<and> hd b = CHR 0x0A)"
  then show "noCRLF ((c # c' # cs) @ b) \<longleftrightarrow>
     noCRLF (c # c' # cs) \<and> noCRLF b \<and>
     \<not> (c # c' # cs \<noteq> [] \<and> b \<noteq> [] \<and> last (c # c' # cs) = CHR 0x0D \<and> hd b = CHR 0x0A)"
    by auto
next
  show "noCRLF ([] @ b) \<longleftrightarrow>
     noCRLF [] \<and> noCRLF b \<and> \<not> ([] \<noteq> [] \<and> b \<noteq> [] \<and> last [] = CHR 0x0D \<and> hd b = CHR 0x0A)"
    by simp
next
  fix c
  show "noCRLF ([c] @ b) \<longleftrightarrow>
     noCRLF [c] \<and> noCRLF b \<and> \<not> ([c] \<noteq> [] \<and> b \<noteq> [] \<and> last [c] = CHR 0x0D \<and> hd b = CHR 0x0A)"
    by (cases b) auto
qed

lemma split_shape_Nil: "split_shape ([] # ls) \<Longrightarrow> ls = []"
  by (cases ls) auto

lemma split_shape_consume:
  assumes "split_shape (line # ls)" "line @ concat ls = a @ b" "CHR 0x0A \<notin> set a"
  shows "\<exists>line'. line = a @ line' \<and> split_shape (line' # ls) \<and> line' @ concat ls = b"
proof -
  from assms(2) consider line' where "line = a @ line'" "line' @ concat ls = b"
    | a' where "a = line @ a'" "a' \<noteq> []" "concat ls = a' @ b"
    by (auto simp: append_eq_append_conv2) (metis append_Nil2)
  then show ?thesis
  proof cases
    case 1
    have "split_shape (line' # ls)"
    proof (cases ls)
      case Nil
      with assms(1) 1 show ?thesis
        by (cases "line' = []") (auto simp: butlast_append)
    next
      case (Cons l ls')
      with assms(1) have line: "line \<noteq> []" "last line = CHR 0x0A" by auto
      have "line' \<noteq> []"
      proof
        assume "line' = []"
        with 1 line have "a \<noteq> []" "last a = CHR 0x0A" by auto
        then have "CHR 0x0A \<in> set a" using last_in_set by metis
        with assms(3) show False by simp
      qed
      with assms(1) 1 Cons show ?thesis
        by (auto simp: butlast_append)
    qed
    with 1 show ?thesis by blast
  next
    case 2
    then obtain l ls' where "ls = l # ls'" by (cases ls) auto
    with assms(1) have "line \<noteq> []" "last line = CHR 0x0A" by auto
    then have "CHR 0x0A \<in> set line" using last_in_set by metis
    with 2 assms(3) show ?thesis by auto
  qed
qed

lemma split_shape_newline:
  assumes "split_shape (line # ls)" "line @ concat ls = CHR 0x0A # x" "x \<noteq> []"
  shows "line = [CHR 0x0A] \<and> (\<exists>l ls'. ls = l # ls' \<and> split_shape (l # ls') \<and> l @ concat ls' = x)"
proof -
  have "line \<noteq> []"
    using assms split_shape_Nil [of ls] by auto
  with assms(2) obtain y where line: "line = CHR 0x0A # y" by (cases line) auto
  have "y = []"
  proof (rule ccontr)
    assume "y \<noteq> []"
    with line have "CHR 0x0A \<in> set (butlast line)" by simp
    with assms(1) show False by (cases ls) auto
  qed
  with line assms(2) have 1: "line = [CHR 0x0A]" and "concat ls = x" by auto
  with assms(3) obtain l ls' where ls: "ls = l # ls'" by (cases ls) auto
  with assms(1) have "split_shape (l # ls')" by simp
  with 1 ls \<open>concat ls = x\<close> show ?thesis by auto
qed

lemma readLine_no_newline:
  "x \<noteq> [] \<Longrightarrow> CHR 0x0A \<notin> set x \<Longrightarrow> last x \<noteq> CHR 0x0D \<Longrightarrow> readLine x = Some (x, [])"
  by (simp add: readLine_def IndexByte_None [THEN iffD2])

lemma readLine_newline:
  assumes "CHR 0x0A \<notin> set a" "noCRLF (a @ CHR 0x0A # b)"
  shows "readLine (a @ CHR 0x0A # b) = Some (a @ [CHR 0x0A], b)"
proof -
  have "a = [] \<or> last a \<noteq> CHR 0x0D"
    using assms(2) by (auto simp: noCRLF_append)
  then have "\<not> (2 \<le> Suc (length a) \<and> (a @ [CHR 0x0A]) ! (Suc (length a) - 2) = CHR 0x0D)"
    by (cases a rule: rev_cases) (auto simp: nth_append)
  then show ?thesis
    using assms(1) by (auto simp: readLine_def IndexByte_first Let_def)
qed

lemma splitLines_shape:
  "x \<noteq> [] \<Longrightarrow> noCRLF x \<Longrightarrow> last x \<noteq> CHR 0x0D \<Longrightarrow>
     \<exists>l ls. splitLines x = l # ls \<and> split_shape (l # ls) \<and> l @ concat ls = x"
proof (induction x rule: length_induct)
  case (1 x)
  show ?case
  proof (cases "CHR 0x0A \<in> set x")
    case False
    with 1(2,4) have "readLine x = Some (x, [])" by (simp add: readLine_no_newline)
    moreover have "splitLines [] = []"
      by (subst splitLines.simps) (simp add: readLine_def)
    ultimately have "splitLines x = [x]"
      by (subst splitLines.simps) simp
    with False show ?thesis by (auto dest: in_set_butlastD)
  next
    case True
    then obtain a b where x: "x = a @ CHR 0x0A # b" "CHR 0x0A \<notin> set a"
      by (auto dest: split_list_first)
    with 1(3) have rl: "readLine x = Some (a @ [CHR 0x0A], b)"
      by (simp add: readLine_newline)
    show ?thesis
    proof (cases "b = []")
      case True
      have "splitLines [] = []"
        by (subst splitLines.simps) (simp add: readLine_def)
      with rl True have "splitLines x = [a @ [CHR 0x0A]]"
        by (subst splitLines.simps) simp
      with x True show ?thesis by auto
    next
      case False
      with x 1(3,4) have "noCRLF b" "last b \<noteq> CHR 0x0D"
        using noCRLF_append [of "a @ [CHR 0x0A]" b] by auto
      moreover have "length b < length x" using x by simp
      ultimately obtain l ls where
        "splitLines b = l # ls" "split_shape (l # ls)" "l @ concat ls = b"
        using 1(1) False by blast
      moreover from rl have "splitLines x = (a @ [CHR 0x0A]) # splitLines b"
        by (subst splitLines.simps) simp
      ultimately show ?thesis using x by auto
    qed
  qed
qed


subsection \<open>Reading back what the writer wrote\<close>

lemma last_not_member: "c \<notin> set f \<Longrightarrow> f \<noteq> [] \<Longrightarrow> last f \<noteq> c"
  by (metis last_in_set)

lemma readAll_end: "readAll (CHR ''|'') k [] records = Inr records"
  by (subst readAll.simps) (simp add: validDelim_def)

lemma parseQuoted_step:
  assumes "c \<noteq> CHR 0x22" "line \<noteq> []"
  shows "parseQuoted comma (c # line) ls cur flds = parseQuoted comma line ls (cur @ [c]) flds"
proof (cases "IndexByte line (CHR 0x22)")
  case None
  with assms show ?thesis
    by (subst parseQuoted.simps, subst (2) parseQuoted.simps) (simp split: list.splits)
next
  case (Some i)
  with assms show ?thesis
    by (subst parseQuoted.simps, subst (2) parseQuoted.simps) (simp add: Let_def)
qed

lemma parseQuoted_content:
  assumes "split_shape (line # ls)" "line @ concat ls = writeQuoted f @ CHR 0x22 # rest"
  shows "(rest = [] \<longrightarrow>
            parseQuoted (CHR ''|'') line ls cur flds = Inr (flds @ [cur @ f], [])) \<and>
         (\<forall>t. rest = CHR ''|'' # t \<longrightarrow>
            (\<exists>line' ls'. split_shape (line' # ls') \<and> line' @ concat ls' = t \<and>
               parseQuoted (CHR ''|'') line ls cur flds
                 = parseField (CHR ''|'') line' ls' (flds @ [cur @ f])))"
  using assms
proof (induction f arbitrary: line ls cur)
  case Nil
  then obtain line' where line: "line = CHR 0x22 # line'" "split_shape (line' # ls)"
      "line' @ concat ls = rest"
    using split_shape_consume [of line ls "[CHR 0x22]" rest] by auto
  show ?case
  proof (intro conjI impI allI)
    assume "rest = []"
    with line have "line' = []" "ls = []"
      using split_shape_Nil [of ls] by auto
    with line show "parseQuoted (CHR ''|'') line ls cur flds = Inr (flds @ [cur @ []], [])"
      by (subst parseQuoted.simps) (simp add: lengthNL_def)
  next
    fix t assume "rest = CHR ''|'' # t"
    with line obtain line'' where l2: "line' = CHR ''|'' # line''" "split_shape (line'' # ls)"
        "line'' @ concat ls = t"
      using split_shape_consume [of line' ls "[CHR ''|'']" t] by auto
    with line have "parseQuoted (CHR ''|'') line ls cur flds
                      = parseField (CHR ''|'') line'' ls (flds @ [cur @ []])"
      by (subst parseQuoted.simps) simp
    with l2 show "\<exists>line' ls'. split_shape (line' # ls') \<and> line' @ concat ls' = t \<and>
               parseQuoted (CHR ''|'') line ls cur flds
                 = parseField (CHR ''|'') line' ls' (flds @ [cur @ []])"
      by blast
  qed
next
  case (Cons c f)
  let ?x = "writeQuoted f @ CHR 0x22 # rest"
  consider (quote) "c = CHR 0x22" | (newline) "c = CHR 0x0A"
    | (other) "c \<noteq> CHR 0x22" "c \<noteq> CHR 0x0A" by blast
  then show ?case
  proof cases
    case quote
    with Cons.prems obtain line' where line: "line = CHR 0x22 # CHR 0x22 # line'"
        "split_shape (line' # ls)" "line' @ concat ls = ?x"
      using split_shape_consume [of line ls "[CHR 0x22, CHR 0x22]" ?x] by auto
    then have "parseQuoted (CHR ''|'') line ls cur flds
                 = parseQuoted (CHR ''|'') line' ls (cur @ [CHR 0x22]) flds"
      by (subst parseQuoted.simps) simp
    with Cons.IH [OF line(2,3), of "cur @ [CHR 0x22]"] quote show ?thesis by simp
  next
    case newline
    with Cons.prems have "line @ concat ls = CHR 0x0A # ?x" by simp
    with Cons.prems(1) obtain l ls' where line: "line = [CHR 0x0A]" "ls = l # ls'"
        "split_shape (l # ls')" "l @ concat ls' = ?x"
      using split_shape_newline [of line ls ?x] by auto
    then have "parseQuoted (CHR ''|'') line ls cur flds
                 = parseQuoted (CHR ''|'') l ls' (cur @ [CHR 0x0A]) flds"
      by (subst parseQuoted.simps) simp
    with Cons.IH [OF line(3,4), of "cur @ [CHR 0x0A]"] newline show ?thesis by simp
  next
    case other
    with Cons.prems have "line @ concat ls = [c] @ ?x" by simp
    with Cons.prems(1) other obtain line' where line: "line = c # line'"
        "split_shape (line' # ls)" "line' @ concat ls = ?x"
      using split_shape_consume [of line ls "[c]" ?x] by auto
    have "line' \<noteq> []"
      using line(2,3) split_shape_Nil [of ls] by auto
    with other line have "parseQuoted (CHR ''|'') line ls cur flds
                 = parseQuoted (CHR ''|'') line' ls (cur @ [c]) flds"
      by (simp add: parseQuoted_step)
    with Cons.IH [OF line(2,3), of "cur @ [c]"] show ?thesis by simp
  qed
qed

lemma parseField_written:
  assumes "split_shape (line # ls)" "line @ concat ls = writeField (CHR ''|'') f @ rest"
  shows "(rest = [] \<longrightarrow> parseField (CHR ''|'') line ls flds = Inr (flds @ [f], [])) \<and>
         (\<forall>t. rest = CHR ''|'' # t \<longrightarrow>
            (\<exists>line' ls'. split_shape (line' # ls') \<and> line' @ concat ls' = t \<and>
               parseField (CHR ''|'') line ls flds
                 = parseField (CHR ''|'') line' ls' (flds @ [f])))"
proof (cases "fieldNeedsQuotes (CHR ''|'') f")
  case True
  with assms have "line @ concat ls = [CHR 0x22] @ (writeQuoted f @ CHR 0x22 # rest)"
    by (simp add: writeField_def)
  with assms(1) obtain line' where line: "line = CHR 0x22 # line'" "split_shape (line' # ls)"
      "line' @ concat ls = writeQuoted f @ CHR 0x22 # rest"
    using split_shape_consume [of line ls "[CHR 0x22]" "writeQuoted f @ CHR 0x22 # rest"]
    by auto
  then have "parseField (CHR ''|'') line ls flds = parseQuoted (CHR ''|'') line' ls [] flds"
    by (subst parseField.simps) simp
  with parseQuoted_content [OF line(2,3), of "[]" flds] show ?thesis by simp
next
  case False
  note chars = unquoted_chars [OF False]
  from False assms have eq: "line @ concat ls = f @ rest" by (simp add: writeField_def)
  have hd: "f = [] \<or> hd f \<noteq> CHR 0x22"
    using chars(3) by (cases f) auto
  show ?thesis
  proof (intro conjI impI allI)
    assume "rest = []"
    with eq assms(1) chars(1) obtain line' where "line = f @ line'" "split_shape (line' # ls)"
        "line' @ concat ls = []"
      using split_shape_consume [of line ls f "[]"] by auto
    then have line: "line = f" "ls = []"
      using split_shape_Nil [of ls] by auto
    have nl: "lengthNL f = 0"
      using chars(1) by (auto simp: lengthNL_def dest: last_not_member)
    show "parseField (CHR ''|'') line ls flds = Inr (flds @ [f], [])"
      using line hd chars nl
      by (subst parseField.simps) (auto simp: IndexByte_None [THEN iffD2])
  next
    fix t assume "rest = CHR ''|'' # t"
    with eq have "line @ concat ls = (f @ [CHR ''|'']) @ t" by simp
    with assms(1) chars(1) obtain line' where line: "line = f @ CHR ''|'' # line'"
        "split_shape (line' # ls)" "line' @ concat ls = t"
      using split_shape_consume [of line ls "f @ [CHR ''|'']" t] by auto
    have "hd line \<noteq> CHR 0x22"
      using line(1) hd by (cases f) auto
    with line(1) chars have "parseField (CHR ''|'') line ls flds
             = parseField (CHR ''|'') line' ls (flds @ [f])"
      by (subst parseField.simps) (simp add: IndexByte_first)
    with line show "\<exists>line' ls'. split_shape (line' # ls') \<and> line' @ concat ls' = t \<and>
               parseField (CHR ''|'') line ls flds
                 = parseField (CHR ''|'') line' ls' (flds @ [f])"
      by blast
  qed
qed

lemma noCRLF_writeQuoted_aux:
  "noCRLF f \<Longrightarrow> noCRLF (writeQuoted f @ [CHR 0x22])"
proof (induction f rule: noCRLF.induct)
  fix c c' cs
  assume "noCRLF (c' # cs) \<Longrightarrow> noCRLF (writeQuoted (c' # cs) @ [CHR 0x22])"
    and "noCRLF (c # c' # cs)"
  then show "noCRLF (writeQuoted (c # c' # cs) @ [CHR 0x22])"
    by auto
next
  show "noCRLF (writeQuoted [] @ [CHR 0x22])"
    by simp
next
  fix c
  show "noCRLF (writeQuoted [c] @ [CHR 0x22])"
    by auto
qed

lemma noCRLF_writeField:
  assumes "noCRLF f"
  shows "noCRLF (writeField (CHR ''|'') f @ CHR ''|'' # r) \<longleftrightarrow> noCRLF r"
    and "noCRLF (writeField (CHR ''|'') f)"
proof -
  have q: "noCRLF (CHR 0x22 # writeQuoted f @ [CHR 0x22])"
    using noCRLF_writeQuoted_aux [OF assms]
    by (cases "writeQuoted f @ [CHR 0x22]") auto
  have 1: "noCRLF (writeField (CHR ''|'') f)"
    using assms q by (simp add: writeField_def)
  have 2: "writeField (CHR ''|'') f = [] \<or> last (writeField (CHR ''|'') f) \<noteq> CHR 0x0D"
    using unquoted_chars(2) [of f] by (auto simp: writeField_def dest: last_not_member)
  have "noCRLF (writeField (CHR ''|'') f @ [CHR ''|''])"
    using 1 by (simp add: noCRLF_append)
  then have "noCRLF ((writeField (CHR ''|'') f @ [CHR ''|'']) @ r) \<longleftrightarrow> noCRLF r"
    by (subst noCRLF_append) auto
  then show "noCRLF (writeField (CHR ''|'') f @ CHR ''|'' # r) \<longleftrightarrow> noCRLF r" by simp
  show "noCRLF (writeField (CHR ''|'') f)" by (rule 1)
qed

lemma writeField_last:
  "writeField (CHR ''|'') f = [] \<or> last (writeField (CHR ''|'') f) \<noteq> CHR 0x0D"
  using unquoted_chars(2) [of f] by (auto simp: writeField_def dest: last_not_member)

lemma writeField_hd:
  "\<exists>c x. writeField (CHR ''|'') f @ CHR ''|'' # r = c # x \<and> c \<noteq> CHR 0x0A"
proof (cases "fieldNeedsQuotes (CHR ''|'') f")
  case True
  then show ?thesis by (simp add: writeField_def)
next
  case False
  then show ?thesis
    using unquoted_chars(1) [OF False] by (cases f) (auto simp: writeField_def)
qed

lemma ReadAll_written:
  assumes "noCRLF d" "noCRLF s" "noCRLF n"
  shows "ReadAll (CHR ''|'')
           (writeField (CHR ''|'') d @ CHR ''|'' # writeField (CHR ''|'') s
              @ CHR ''|'' # writeField (CHR ''|'') n)
         = Inr [[d, s, n]]"
proof -
  let ?wn = "writeField (CHR ''|'') n"
  let ?ws = "writeField (CHR ''|'') s"
  let ?E = "writeField (CHR ''|'') d @ CHR ''|'' # ?ws @ CHR ''|'' # ?wn"
  have "noCRLF ?E"
    using assms by (simp add: noCRLF_writeField)
  moreover have "last ?E \<noteq> CHR 0x0D"
    using writeField_last [of n] by auto
  ultimately obtain l ls where split: "splitLines ?E = l # ls" "split_shape (l # ls)"
      "l @ concat ls = ?E"
    using splitLines_shape [of ?E] by auto
  obtain c x where "?E = c # x" "c \<noteq> CHR 0x0A"
    using writeField_hd [of d "?ws @ CHR ''|'' # ?wn"] by auto
  with split obtain l' where "l = c # l'"
    using split_shape_consume [of l ls "[c]" x] by auto
  with \<open>c \<noteq> CHR 0x0A\<close> have nonempty: "length l \<noteq> lengthNL l"
    by (cases "l' = []") (auto simp: lengthNL_def)
  from parseField_written [OF split(2), of d "CHR ''|'' # ?ws @ CHR ''|'' # ?wn" "[]"] split(3)
  obtain l1 ls1 where 1: "split_shape (l1 # ls1)" "l1 @ concat ls1 = ?ws @ CHR ''|'' # ?wn"
      "parseField (CHR ''|'') l ls [] = parseField (CHR ''|'') l1 ls1 [d]"
    by auto
  from parseField_written [OF 1(1), of s "CHR ''|'' # ?wn" "[d]"] 1(2)
  obtain l2 ls2 where 2: "split_shape (l2 # ls2)" "l2 @ concat ls2 = ?wn"
      "parseField (CHR ''|'') l1 ls1 [d] = parseField (CHR ''|'') l2 ls2 [d, s]"
    by auto
  from parseField_written [OF 2(1), of n "[]" "[d, s]"] 2(2)
  have "parseField (CHR ''|'') l2 ls2 [d, s] = Inr ([d, s, n], [])" by simp
  with 1(3) 2(3) have parsed: "parseField (CHR ''|'') l ls [] = Inr ([d, s, n], [])" by simp
  from parsed nonempty have "readAll (CHR ''|'') 0 (l # ls) [] = Inr [[d, s, n]]"
    by (subst readAll.simps) (simp add: validDelim_def readAll_end)
  with split(1) show ?thesis by (simp add: ReadAll_def)
qed

lemma roundtrip:
  assumes "noCRLF d" "noCRLF s" "noCRLF n"
    and "fieldNeedsQuotes (CHR ''|'') n \<or> trailingSpace n = None"
  shows "\<exists>enc. String \<lparr>DatabaseName = d, SchemaName = s, Name = n\<rparr> = Inr enc \<and>
           udfIDFromString enc = Inr \<lparr>DatabaseName = d, SchemaName = s, Name = n\<rparr>"
  using TrimSpace_encoding [OF assms(4), of d s] ReadAll_written [OF assms(1-3)]
  by (simp add: String_def udfIDFromString_def pipeIDDelimiter_def)

subsection \<open>Encoding, then decoding\<close>

lemma encode_plain:
  "String \<lparr>DatabaseName = ''test_db'', SchemaName = ''test_schema'', Name = ''good_name''\<rparr>
     = Inr ''test_db|test_schema|good_name''"
  by code_simp

lemma trailingSpace_plain: "trailingSpace ''good_name'' = None"
  by code_simp

lemma encode_trailing_blank:
  "String \<lparr>DatabaseName = ''db'', SchemaName = ''sc'', Name = ''n ''\<rparr> = Inr ''db|sc|n''"
  by code_simp

lemma decode_trimmed:
  "udfIDFromString ''db|sc|n'' = Inr \<lparr>DatabaseName = ''db'', SchemaName = ''sc'', Name = ''n''\<rparr>"
  by code_simp

lemma encode_crlf:
  "String \<lparr>DatabaseName = ''db'', SchemaName = ''sc'', Name = [CHR ''a'', CHR 0x0D, CHR 0x0A, CHR ''b'']\<rparr>
     = Inr (''db|sc|'' @ [CHR 0x22, CHR ''a'', CHR 0x0D, CHR 0x0A, CHR ''b'', CHR 0x22])"
  by code_simp

lemma decode_crlf:
  "udfIDFromString (''db|sc|'' @ [CHR 0x22, CHR ''a'', CHR 0x0D, CHR 0x0A, CHR ''b'', CHR 0x22])
     = Inr \<lparr>DatabaseName = ''db'', SchemaName = ''sc'', Name = [CHR ''a'', CHR 0x0A, CHR ''b'']\<rparr>"
  by code_simp

text \<open>
  C2 (the claim as stated fails; amended). Encoding and then decoding returns the triple
  for every database, schema and name without the pipe character in which no carriage
  return is directly followed by a newline and whose name does not end in a white-space
  character, unless the writer quotes the name (it contains a double quote, a carriage
  return or a newline, begins with white space, or is backslash-dot).
\<close>

theorem udfID_roundtrip:
  "CHR ''|'' \<notin> set d \<and> CHR ''|'' \<notin> set s \<and> CHR ''|'' \<notin> set n \<and>
   noCRLF d \<and> noCRLF s \<and> noCRLF n \<and>
   (fieldNeedsQuotes (CHR ''|'') n \<or> trailingSpace n = None)
   \<longrightarrow> (\<exists>enc. String \<lparr>DatabaseName = d, SchemaName = s, Name = n\<rparr> = Inr enc \<and>
              udfIDFromString enc = Inr \<lparr>DatabaseName = d, SchemaName = s, Name = n\<rparr>)"
  using roundtrip [of d s n] by blast

theorem udfID_roundtrip_witness:
  "String \<lparr>DatabaseName = ''test_db'', SchemaName = ''test_schema'', Name = ''good_name''\<rparr>
     = Inr ''test_db|test_schema|good_name'' \<and>
   udfIDFromString ''test_db|test_schema|good_name''
     = Inr \<lparr>DatabaseName = ''test_db'', SchemaName = ''test_schema'', Name = ''good_name''\<rparr>"
  using udfID_roundtrip [of "''test_db''" "''test_schema''" "''good_name''"]
    encode_plain trailingSpace_plain
  by simp

text \<open>
  The claim as stated fails at two triples without a pipe: \<^verbatim>\<open>TrimSpace\<close> removes the blank
  that ends an unquoted name, and the reader drops a carriage return before a newline
  inside a quoted field.
\<close>

theorem udfID_roundtrip_counterexample:
  "CHR ''|'' \<notin> set ''db'' \<and> CHR ''|'' \<notin> set ''sc'' \<and> CHR ''|'' \<notin> set ''n '' \<and>
   String \<lparr>DatabaseName = ''db'', SchemaName = ''sc'', Name = ''n ''\<rparr> = Inr ''db|sc|n'' \<and>
   udfIDFromString ''db|sc|n'' = Inr \<lparr>DatabaseName = ''db'', SchemaName = ''sc'', Name = ''n''\<rparr> \<and>
   ''n'' \<noteq> ''n '' \<and>
   CHR ''|'' \<notin> set [CHR ''a'', CHR 0x0D, CHR 0x0A, CHR ''b''] \<and>
   String \<lparr>DatabaseName = ''db'', SchemaName = ''sc'',
           Name = [CHR ''a'', CHR 0x0D, CHR 0x0A, CHR ''b'']\<rparr>
     = Inr (''db|sc|'' @ [CHR 0x22, CHR ''a'', CHR 0x0D, CHR 0x0A, CHR ''b'', CHR 0x22]) \<and>
   udfIDFromString (''db|sc|'' @ [CHR 0x22, CHR ''a'', CHR 0x0D, CHR 0x0A, CHR ''b'', CHR 0x22])
     = Inr \<lparr>DatabaseName = ''db'', SchemaName = ''sc'', Name = [CHR ''a'', CHR 0x0A, CHR ''b'']\<rparr>"
  using encode_trailing_blank decode_trimmed encode_crlf decode_crlf by simp

subsection \<open>Decoding the encoding of any triple\<close>

lemma normalizeCRLF_Cons: "c \<noteq> CHR 0x0D \<Longrightarrow> normalizeCRLF (c # y) = c # normalizeCRLF y"
  by (cases y) auto

lemma normalizeCRLF_CR:
  "y = [] \<or> hd y \<noteq> CHR 0x0A \<Longrightarrow> normalizeCRLF (CHR 0x0D # y) = CHR 0x0D # normalizeCRLF y"
  by (cases y) auto

lemma normalizeCRLF_append: "CHR 0x0D \<notin> set a \<Longrightarrow> normalizeCRLF (a @ b) = a @ normalizeCRLF b"
  by (induction a) (auto simp: normalizeCRLF_Cons)

lemma normalizeCRLF_id: "CHR 0x0D \<notin> set a \<Longrightarrow> normalizeCRLF a = a"
  using normalizeCRLF_append [of a "[]"] by simp

lemma normalizeCRLF_no_newline: "CHR 0x0A \<notin> set a \<Longrightarrow> normalizeCRLF a = a"
  by (induction a rule: normalizeCRLF.induct) auto

lemma normalizeCRLF_noCRLF: "noCRLF a \<Longrightarrow> normalizeCRLF a = a"
  by (induction a rule: normalizeCRLF.induct) auto

lemma normalizeCRLF_line:
  "CHR 0x0A \<notin> set a \<Longrightarrow>
     normalizeCRLF (a @ CHR 0x0A # b)
       = (if a \<noteq> [] \<and> last a = CHR 0x0D then butlast a else a) @ CHR 0x0A # normalizeCRLF b"
proof (induction a)
  case Nil
  then show ?case by (simp add: normalizeCRLF_Cons)
next
  case (Cons c a)
  show ?case
  proof (cases "a = []")
    case True
    then show ?thesis by (simp add: normalizeCRLF_Cons)
  next
    case False
    with Cons.prems have "hd (a @ CHR 0x0A # b) \<noteq> CHR 0x0A" by (cases a) auto
    then have "normalizeCRLF (c # a @ CHR 0x0A # b) = c # normalizeCRLF (a @ CHR 0x0A # b)"
      by (cases "c = CHR 0x0D") (simp_all add: normalizeCRLF_Cons normalizeCRLF_CR)
    with Cons False show ?thesis by simp
  qed
qed

lemma readLine_line:
  assumes "CHR 0x0A \<notin> set a"
  shows "readLine (a @ CHR 0x0A # b)
           = Some ((if a \<noteq> [] \<and> last a = CHR 0x0D then butlast a else a) @ [CHR 0x0A], b)"
proof -
  let ?line = "a @ [CHR 0x0A]"
  have "readLine (a @ CHR 0x0A # b)
          = Some (if 2 \<le> length ?line \<and> ?line ! (length ?line - 2) = CHR 0x0D
                  then take (length ?line - 2) ?line @ [CHR 0x0A] else ?line, b)"
    using assms by (simp add: readLine_def IndexByte_first Let_def)
  also have "(if 2 \<le> length ?line \<and> ?line ! (length ?line - 2) = CHR 0x0D
              then take (length ?line - 2) ?line @ [CHR 0x0A] else ?line)
             = (if a \<noteq> [] \<and> last a = CHR 0x0D then butlast a else a) @ [CHR 0x0A]"
    by (cases a rule: rev_cases) (auto simp: nth_append)
  finally show ?thesis .
qed

lemma splitLines_normalized:
  "x \<noteq> [] \<Longrightarrow> last x \<noteq> CHR 0x0D \<Longrightarrow>
     \<exists>l ls. splitLines x = l # ls \<and> split_shape (l # ls) \<and> l @ concat ls = normalizeCRLF x"
proof (induction x rule: length_induct)
  case (1 x)
  show ?case
  proof (cases "CHR 0x0A \<in> set x")
    case False
    with 1(2,3) have "readLine x = Some (x, [])" by (simp add: readLine_no_newline)
    moreover have "splitLines [] = []"
      by (subst splitLines.simps) (simp add: readLine_def)
    ultimately have "splitLines x = [x]"
      by (subst splitLines.simps) simp
    with False show ?thesis by (auto simp: normalizeCRLF_no_newline dest: in_set_butlastD)
  next
    case True
    then obtain a b where x: "x = a @ CHR 0x0A # b" "CHR 0x0A \<notin> set a"
      by (auto dest: split_list_first)
    define a' where "a' = (if a \<noteq> [] \<and> last a = CHR 0x0D then butlast a else a)"
    have a': "CHR 0x0A \<notin> set a'"
      using x(2) by (auto simp: a'_def dest: in_set_butlastD)
    from x have rl: "readLine x = Some (a' @ [CHR 0x0A], b)"
      by (simp add: readLine_line a'_def)
    from x have norm: "normalizeCRLF x = a' @ CHR 0x0A # normalizeCRLF b"
      by (simp add: normalizeCRLF_line a'_def)
    show ?thesis
    proof (cases "b = []")
      case True
      have "splitLines [] = []"
        by (subst splitLines.simps) (simp add: readLine_def)
      with rl True have "splitLines x = [a' @ [CHR 0x0A]]"
        by (subst splitLines.simps) simp
      with norm a' True show ?thesis by auto
    next
      case False
      with x 1(3) have "last b \<noteq> CHR 0x0D" by auto
      moreover have "length b < length x" using x by simp
      ultimately obtain l ls where
        "splitLines b = l # ls" "split_shape (l # ls)" "l @ concat ls = normalizeCRLF b"
        using 1(1) False by blast
      moreover from rl have "splitLines x = (a' @ [CHR 0x0A]) # splitLines b"
        by (subst splitLines.simps) simp
      ultimately show ?thesis using norm a' by auto
    qed
  qed
qed

lemma normalizeCRLF_writeQuoted:
  "normalizeCRLF (writeQuoted f @ CHR 0x22 # r)
     = writeQuoted (normalizeCRLF f) @ CHR 0x22 # normalizeCRLF r"
proof (induction f rule: length_induct)
  case (1 f)
  show ?case
  proof (cases f)
    case Nil
    then show ?thesis by (simp add: normalizeCRLF_Cons)
  next
    case (Cons c f')
    let ?y = "writeQuoted f' @ CHR 0x22 # r"
    have IH: "normalizeCRLF ?y = writeQuoted (normalizeCRLF f') @ CHR 0x22 # normalizeCRLF r"
      using 1 Cons by simp
    show ?thesis
    proof (cases "c = CHR 0x0D")
      case False
      then have "normalizeCRLF (writeQuoted (c # f') @ CHR 0x22 # r)
                   = writeQuoted [c] @ normalizeCRLF ?y"
        by (simp add: normalizeCRLF_Cons)
      moreover from False have "normalizeCRLF (c # f') = c # normalizeCRLF f'"
        by (simp add: normalizeCRLF_Cons)
      ultimately show ?thesis using Cons IH by simp
    next
      case True
      show ?thesis
      proof (cases "f' \<noteq> [] \<and> hd f' = CHR 0x0A")
        case True
        then obtain f'' where f': "f' = CHR 0x0A # f''" by (cases f') auto
        have "normalizeCRLF (writeQuoted f'' @ CHR 0x22 # r)
                = writeQuoted (normalizeCRLF f'') @ CHR 0x22 # normalizeCRLF r"
          using 1 Cons f' by simp
        with Cons f' \<open>c = CHR 0x0D\<close> show ?thesis by simp
      next
        case False
        then have "hd ?y \<noteq> CHR 0x0A" by (cases f') auto
        then have "normalizeCRLF (CHR 0x0D # ?y) = CHR 0x0D # normalizeCRLF ?y"
          by (simp add: normalizeCRLF_CR)
        moreover from False have "normalizeCRLF (CHR 0x0D # f') = CHR 0x0D # normalizeCRLF f'"
          by (cases f') (auto simp: normalizeCRLF_CR)
        ultimately show ?thesis using Cons True IH by simp
      qed
    qed
  qed
qed

lemma suffix_after_pipe:
  assumes "w \<in> set spaceRunes"
  shows "suffix w (p @ CHR ''|'' # m) \<longleftrightarrow> suffix w m"
proof
  assume "suffix w m"
  then show "suffix w (p @ CHR ''|'' # m)"
    using suffix_appendI [of w m "p @ [CHR ''|'']"] by simp
next
  assume "suffix w (p @ CHR ''|'' # m)"
  then have "suffix w ((p @ [CHR ''|'']) @ m)" by simp
  then consider "suffix w m" | us where "w = us @ m" "suffix us (p @ [CHR ''|''])"
    unfolding suffix_append [of w "p @ [CHR ''|'']" m] by blast
  then show "suffix w m"
  proof cases
    case 1
    then show ?thesis .
  next
    case 2
    show ?thesis
    proof (cases us rule: rev_cases)
      case Nil
      with 2 show ?thesis by simp
    next
      case (snoc us' u)
      with 2 have "CHR ''|'' \<in> set w" by auto
      with spaceRune_chars [OF assms] show ?thesis by simp
    qed
  qed
qed

lemma trailingSpace_after_pipe: "trailingSpace (p @ CHR ''|'' # m) = trailingSpace m"
  unfolding trailingSpace_def
  by (rule find_cong) (simp_all add: suffix_after_pipe)

lemma trailingSpace_suffix: "trailingSpace m = Some w \<Longrightarrow> suffix w m \<and> w \<noteq> []"
  by (auto simp: trailingSpace_def find_Some_iff dest: spaceRune_chars [OF nth_mem])

lemma TrimRightSpace_after_pipe:
  "TrimRightSpace (p @ CHR ''|'' # m) = p @ CHR ''|'' # TrimRightSpace m"
proof (induction m rule: TrimRightSpace.induct)
  case (1 m)
  show ?case
  proof (cases "trailingSpace m")
    case None
    then show ?thesis
      by (subst TrimRightSpace.simps, subst (2) TrimRightSpace.simps)
         (simp add: trailingSpace_after_pipe)
  next
    case (Some w)
    then have "length w \<le> length m"
      using trailingSpace_suffix [of m w] by (auto dest: suffix_length_le)
    then have "take (length (p @ CHR ''|'' # m) - length w) (p @ CHR ''|'' # m)
                 = p @ CHR ''|'' # take (length m - length w) m"
      by (simp add: Suc_diff_le)
    with Some 1 [OF Some] show ?thesis
      by (subst TrimRightSpace.simps, subst (2) TrimRightSpace.simps)
         (simp add: trailingSpace_after_pipe del: length_append length_Cons)
  qed
qed

lemma TrimRightSpace_chars: "set (TrimRightSpace m) \<subseteq> set m"
proof (induction m rule: TrimRightSpace.induct)
  case (1 m)
  show ?case
  proof (cases "trailingSpace m")
    case None
    then show ?thesis by (subst TrimRightSpace.simps) simp
  next
    case (Some w)
    with 1 [OF Some] show ?thesis
      by (subst TrimRightSpace.simps) (auto dest: in_set_takeD)
  qed
qed

lemma TrimRightSpace_strip_newline:
  "TrimRightSpace (s @ [CHR 0x0A]) = TrimRightSpace s"
  by (subst TrimRightSpace.simps) (simp add: trailingSpace_newline)

lemma TrimSpace_encoding_any:
  "TrimSpace (WriteAll (CHR ''|'') [[d, s, n]]) =
     writeField (CHR ''|'') d @ CHR ''|'' # writeField (CHR ''|'') s
       @ CHR ''|'' # (if fieldNeedsQuotes (CHR ''|'') n then writeField (CHR ''|'') n
                      else TrimRightSpace n)"
proof -
  let ?p = "writeField (CHR ''|'') d @ CHR ''|'' # writeField (CHR ''|'') s"
  let ?E = "?p @ CHR ''|'' # writeField (CHR ''|'') n"
  have "leadingSpace (?E @ [CHR 0x0A]) = None"
    using writeField_leadingSpace [of d "writeField (CHR ''|'') s
              @ CHR ''|'' # writeField (CHR ''|'') n @ [CHR 0x0A]"] by simp
  then have left: "TrimLeftSpace (?E @ [CHR 0x0A]) = ?E @ [CHR 0x0A]"
    by (rule TrimLeftSpace_id)
  have right: "TrimRightSpace (?E @ [CHR 0x0A]) = TrimRightSpace ?E"
    by (rule TrimRightSpace_strip_newline)
  have "TrimRightSpace ?E = ?p @ CHR ''|'' # (if fieldNeedsQuotes (CHR ''|'') n
          then writeField (CHR ''|'') n else TrimRightSpace n)"
  proof (cases "fieldNeedsQuotes (CHR ''|'') n")
    case True
    then have "trailingSpace ?E = None"
      using writeField_trailingSpace [of n ?p] by simp
    with True show ?thesis by (simp add: TrimRightSpace_id)
  next
    case False
    then have "writeField (CHR ''|'') n = n" by (simp add: writeField_def)
    with False show ?thesis
      using TrimRightSpace_after_pipe [of ?p n] by simp
  qed
  with left right show ?thesis
    by (simp add: TrimSpace_def WriteAll_triple)
qed

lemma parseField_raw:
  assumes "split_shape (line # ls)" "line @ concat ls = f @ rest"
    and chars: "CHR 0x0A \<notin> set f" "CHR 0x22 \<notin> set f" "CHR ''|'' \<notin> set f"
  shows "(rest = [] \<longrightarrow> parseField (CHR ''|'') line ls flds = Inr (flds @ [f], [])) \<and>
         (\<forall>t. rest = CHR ''|'' # t \<longrightarrow>
            (\<exists>line' ls'. split_shape (line' # ls') \<and> line' @ concat ls' = t \<and>
               parseField (CHR ''|'') line ls flds
                 = parseField (CHR ''|'') line' ls' (flds @ [f])))"
proof -
  note eq = assms(2)
  have hd: "f = [] \<or> hd f \<noteq> CHR 0x22"
    using chars(2) by (cases f) auto
  show ?thesis
  proof (intro conjI impI allI)
    assume "rest = []"
    with eq assms(1) chars(1) obtain line' where "line = f @ line'" "split_shape (line' # ls)"
        "line' @ concat ls = []"
      using split_shape_consume [of line ls f "[]"] by auto
    then have line: "line = f" "ls = []"
      using split_shape_Nil [of ls] by auto
    have nl: "lengthNL f = 0"
      using chars(1) by (auto simp: lengthNL_def dest: last_not_member)
    show "parseField (CHR ''|'') line ls flds = Inr (flds @ [f], [])"
      using line hd chars nl
      by (subst parseField.simps) (auto simp: IndexByte_None [THEN iffD2])
  next
    fix t assume "rest = CHR ''|'' # t"
    with eq have "line @ concat ls = (f @ [CHR ''|'']) @ t" by simp
    with assms(1) chars(1) obtain line' where line: "line = f @ CHR ''|'' # line'"
        "split_shape (line' # ls)" "line' @ concat ls = t"
      using split_shape_consume [of line ls "f @ [CHR ''|'']" t] by auto
    have "hd line \<noteq> CHR 0x22"
      using line(1) hd by (cases f) auto
    with line(1) chars have "parseField (CHR ''|'') line ls flds
             = parseField (CHR ''|'') line' ls (flds @ [f])"
      by (subst parseField.simps) (simp add: IndexByte_first)
    with line show "\<exists>line' ls'. split_shape (line' # ls') \<and> line' @ concat ls' = t \<and>
               parseField (CHR ''|'') line ls flds
                 = parseField (CHR ''|'') line' ls' (flds @ [f])"
      by blast
  qed
qed

lemma parseField_quoted:
  assumes "split_shape (line # ls)"
    and "line @ concat ls = CHR 0x22 # writeQuoted f @ CHR 0x22 # rest"
  shows "(rest = [] \<longrightarrow> parseField (CHR ''|'') line ls flds = Inr (flds @ [f], [])) \<and>
         (\<forall>t. rest = CHR ''|'' # t \<longrightarrow>
            (\<exists>line' ls'. split_shape (line' # ls') \<and> line' @ concat ls' = t \<and>
               parseField (CHR ''|'') line ls flds
                 = parseField (CHR ''|'') line' ls' (flds @ [f])))"
proof -
  from assms have "line @ concat ls = [CHR 0x22] @ (writeQuoted f @ CHR 0x22 # rest)"
    by simp
  with assms(1) obtain line' where line: "line = CHR 0x22 # line'" "split_shape (line' # ls)"
      "line' @ concat ls = writeQuoted f @ CHR 0x22 # rest"
    using split_shape_consume [of line ls "[CHR 0x22]" "writeQuoted f @ CHR 0x22 # rest"]
    by auto
  then have "parseField (CHR ''|'') line ls flds = parseQuoted (CHR ''|'') line' ls [] flds"
    by (subst parseField.simps) simp
  with parseQuoted_content [OF line(2,3), of "[]" flds] show ?thesis by simp
qed

text \<open>The text of a written field after the reader's line normalisation, and how it reads.\<close>

lemma written_field_read:
  "\<exists>w. (\<forall>r. normalizeCRLF (writeField (CHR ''|'') f @ CHR ''|'' # r)
               = w @ CHR ''|'' # normalizeCRLF r) \<and>
        normalizeCRLF (writeField (CHR ''|'') f) = w \<and>
        (w = [] \<or> (hd w \<noteq> CHR 0x0A \<and> last w \<noteq> CHR 0x0D)) \<and>
        (\<forall>line ls rest flds. split_shape (line # ls) \<longrightarrow> line @ concat ls = w @ rest \<longrightarrow>
           (rest = [] \<longrightarrow>
              parseField (CHR ''|'') line ls flds = Inr (flds @ [normalizeCRLF f], [])) \<and>
           (\<forall>t. rest = CHR ''|'' # t \<longrightarrow>
              (\<exists>line' ls'. split_shape (line' # ls') \<and> line' @ concat ls' = t \<and>
                 parseField (CHR ''|'') line ls flds
                   = parseField (CHR ''|'') line' ls' (flds @ [normalizeCRLF f]))))"
proof (cases "fieldNeedsQuotes (CHR ''|'') f")
  case True
  let ?w = "CHR 0x22 # writeQuoted (normalizeCRLF f) @ [CHR 0x22]"
  have 1: "normalizeCRLF (writeField (CHR ''|'') f @ CHR ''|'' # r)
             = ?w @ CHR ''|'' # normalizeCRLF r" for r
    using True normalizeCRLF_writeQuoted [of f "CHR ''|'' # r"]
    by (simp add: writeField_def normalizeCRLF_Cons)
  have 2: "normalizeCRLF (writeField (CHR ''|'') f) = ?w"
    using True normalizeCRLF_writeQuoted [of f "[]"]
    by (simp add: writeField_def normalizeCRLF_Cons)
  have 3: "hd ?w \<noteq> CHR 0x0A \<and> last ?w \<noteq> CHR 0x0D" by simp
  have 4: "(rest = [] \<longrightarrow>
              parseField (CHR ''|'') line ls flds = Inr (flds @ [normalizeCRLF f], [])) \<and>
           (\<forall>t. rest = CHR ''|'' # t \<longrightarrow>
              (\<exists>line' ls'. split_shape (line' # ls') \<and> line' @ concat ls' = t \<and>
                 parseField (CHR ''|'') line ls flds
                   = parseField (CHR ''|'') line' ls' (flds @ [normalizeCRLF f])))"
    if "split_shape (line # ls)" "line @ concat ls = ?w @ rest" for line ls rest flds
    using parseField_quoted [of line ls "normalizeCRLF f" rest flds] that by simp
  from 1 2 3 4 show ?thesis by blast
next
  case False
  note chars = unquoted_chars [OF False]
  have id: "normalizeCRLF f = f" using chars(2) by (rule normalizeCRLF_id)
  have 1: "normalizeCRLF (writeField (CHR ''|'') f @ CHR ''|'' # r)
             = f @ CHR ''|'' # normalizeCRLF r" for r
    using False chars(2) by (simp add: writeField_def normalizeCRLF_append normalizeCRLF_Cons)
  have 2: "normalizeCRLF (writeField (CHR ''|'') f) = f"
    using False id by (simp add: writeField_def)
  have 3: "f = [] \<or> (hd f \<noteq> CHR 0x0A \<and> last f \<noteq> CHR 0x0D)"
    using chars(1,2) by (cases f) (auto dest: last_not_member)
  have 4: "(rest = [] \<longrightarrow>
              parseField (CHR ''|'') line ls flds = Inr (flds @ [normalizeCRLF f], [])) \<and>
           (\<forall>t. rest = CHR ''|'' # t \<longrightarrow>
              (\<exists>line' ls'. split_shape (line' # ls') \<and> line' @ concat ls' = t \<and>
                 parseField (CHR ''|'') line ls flds
                   = parseField (CHR ''|'') line' ls' (flds @ [normalizeCRLF f])))"
    if "split_shape (line # ls)" "line @ concat ls = f @ rest" for line ls rest flds
    using parseField_raw [OF that chars(1,3,4), of flds] id by simp
  from 1 2 3 4 show ?thesis by blast
qed

lemma last_field_read:
  "\<exists>w. normalizeCRLF (if fieldNeedsQuotes (CHR ''|'') n then writeField (CHR ''|'') n
                        else TrimRightSpace n) = w \<and>
        (\<forall>p. last (p @ CHR ''|'' # (if fieldNeedsQuotes (CHR ''|'') n
                                     then writeField (CHR ''|'') n else TrimRightSpace n))
               \<noteq> CHR 0x0D) \<and>
        (\<forall>line ls flds. split_shape (line # ls) \<longrightarrow> line @ concat ls = w \<longrightarrow>
           parseField (CHR ''|'') line ls flds
             = Inr (flds @ [if fieldNeedsQuotes (CHR ''|'') n then normalizeCRLF n
                            else TrimRightSpace n], []))"
proof (cases "fieldNeedsQuotes (CHR ''|'') n")
  case True
  from written_field_read [of n] obtain w where
      w: "normalizeCRLF (writeField (CHR ''|'') n) = w"
    and rd: "\<forall>line ls rest flds. split_shape (line # ls) \<longrightarrow> line @ concat ls = w @ rest \<longrightarrow>
           (rest = [] \<longrightarrow>
              parseField (CHR ''|'') line ls flds = Inr (flds @ [normalizeCRLF n], [])) \<and>
           (\<forall>t. rest = CHR ''|'' # t \<longrightarrow>
              (\<exists>line' ls'. split_shape (line' # ls') \<and> line' @ concat ls' = t \<and>
                 parseField (CHR ''|'') line ls flds
                   = parseField (CHR ''|'') line' ls' (flds @ [normalizeCRLF n])))"
    by blast
  have "parseField (CHR ''|'') line ls flds = Inr (flds @ [normalizeCRLF n], [])"
    if "split_shape (line # ls)" "line @ concat ls = w" for line ls flds
    using rd [rule_format, of line ls "[]" flds] that by simp
  moreover have "last (p @ CHR ''|'' # writeField (CHR ''|'') n) \<noteq> CHR 0x0D" for p
    using True by (simp add: writeField_def)
  ultimately show ?thesis using True w by auto
next
  case False
  note chars = unquoted_chars [OF False]
  let ?m = "TrimRightSpace n"
  have sub: "set ?m \<subseteq> set n" by (rule TrimRightSpace_chars)
  with chars have m: "CHR 0x0A \<notin> set ?m" "CHR 0x0D \<notin> set ?m" "CHR 0x22 \<notin> set ?m"
      "CHR ''|'' \<notin> set ?m"
    by auto
  have "parseField (CHR ''|'') line ls flds = Inr (flds @ [?m], [])"
    if "split_shape (line # ls)" "line @ concat ls = ?m" for line ls flds
    using parseField_raw [of line ls ?m "[]" flds] that m by simp
  moreover have "last (p @ CHR ''|'' # ?m) \<noteq> CHR 0x0D" for p
    using m(2) by (cases "?m = []") (auto dest: last_not_member)
  moreover have "normalizeCRLF ?m = ?m" using m(2) by (rule normalizeCRLF_id)
  ultimately show ?thesis using False by auto
qed

lemma ReadAll_encoding_any:
  "ReadAll (CHR ''|'')
     (writeField (CHR ''|'') d @ CHR ''|'' # writeField (CHR ''|'') s
        @ CHR ''|'' # (if fieldNeedsQuotes (CHR ''|'') n then writeField (CHR ''|'') n
                       else TrimRightSpace n))
   = Inr [[normalizeCRLF d, normalizeCRLF s,
           if fieldNeedsQuotes (CHR ''|'') n then normalizeCRLF n else TrimRightSpace n]]"
proof -
  define L where "L = (if fieldNeedsQuotes (CHR ''|'') n then writeField (CHR ''|'') n
            else TrimRightSpace n)"
  define v where "v = (if fieldNeedsQuotes (CHR ''|'') n then normalizeCRLF n
                       else TrimRightSpace n)"
  define wfd where "wfd = writeField (CHR ''|'') d"
  define wfs where "wfs = writeField (CHR ''|'') s"
  define nd where "nd = normalizeCRLF d"
  define ns where "ns = normalizeCRLF s"
  let ?E = "wfd @ CHR ''|'' # wfs @ CHR ''|'' # L"
  from written_field_read [of d] obtain wd where
      wd: "(\<forall>r. normalizeCRLF (wfd @ CHR ''|'' # r) = wd @ CHR ''|'' # normalizeCRLF r) \<and>
        normalizeCRLF wfd = wd \<and>
        (wd = [] \<or> (hd wd \<noteq> CHR 0x0A \<and> last wd \<noteq> CHR 0x0D)) \<and>
        (\<forall>line ls rest flds. split_shape (line # ls) \<longrightarrow> line @ concat ls = wd @ rest \<longrightarrow>
           (rest = [] \<longrightarrow>
              parseField (CHR ''|'') line ls flds = Inr (flds @ [nd], [])) \<and>
           (\<forall>t. rest = CHR ''|'' # t \<longrightarrow>
              (\<exists>line' ls'. split_shape (line' # ls') \<and> line' @ concat ls' = t \<and>
                 parseField (CHR ''|'') line ls flds
                   = parseField (CHR ''|'') line' ls' (flds @ [nd]))))"
    unfolding wfd_def nd_def ..
  from written_field_read [of s] obtain ws where
      ws: "(\<forall>r. normalizeCRLF (wfs @ CHR ''|'' # r) = ws @ CHR ''|'' # normalizeCRLF r) \<and>
        normalizeCRLF wfs = ws \<and>
        (ws = [] \<or> (hd ws \<noteq> CHR 0x0A \<and> last ws \<noteq> CHR 0x0D)) \<and>
        (\<forall>line ls rest flds. split_shape (line # ls) \<longrightarrow> line @ concat ls = ws @ rest \<longrightarrow>
           (rest = [] \<longrightarrow>
              parseField (CHR ''|'') line ls flds = Inr (flds @ [ns], [])) \<and>
           (\<forall>t. rest = CHR ''|'' # t \<longrightarrow>
              (\<exists>line' ls'. split_shape (line' # ls') \<and> line' @ concat ls' = t \<and>
                 parseField (CHR ''|'') line ls flds
                   = parseField (CHR ''|'') line' ls' (flds @ [ns]))))"
    unfolding wfs_def ns_def ..
  from last_field_read [of n] obtain wl where
      wl: "normalizeCRLF L = wl \<and>
        (\<forall>p. last (p @ CHR ''|'' # L) \<noteq> CHR 0x0D) \<and>
        (\<forall>line ls flds. split_shape (line # ls) \<longrightarrow> line @ concat ls = wl \<longrightarrow>
           parseField (CHR ''|'') line ls flds = Inr (flds @ [v], []))"
    unfolding L_def v_def ..
  have "normalizeCRLF ?E = wd @ CHR ''|'' # normalizeCRLF (wfs @ CHR ''|'' # L)"
    using wd by blast
  also have "normalizeCRLF (wfs @ CHR ''|'' # L) = ws @ CHR ''|'' # normalizeCRLF L"
    using ws by blast
  also have "normalizeCRLF L = wl" using wl by blast
  finally have norm: "normalizeCRLF ?E = wd @ CHR ''|'' # ws @ CHR ''|'' # wl" .
  have "last ((wfd @ CHR ''|'' # wfs) @ CHR ''|'' # L) \<noteq> CHR 0x0D"
    using wl by blast
  then have "last ?E \<noteq> CHR 0x0D" by simp
  moreover have "?E \<noteq> []" by simp
  ultimately obtain l ls where split: "splitLines ?E = l # ls" "split_shape (l # ls)"
      "l @ concat ls = wd @ CHR ''|'' # ws @ CHR ''|'' # wl"
    using splitLines_normalized [of ?E] unfolding norm by blast
  have "wd = [] \<or> hd wd \<noteq> CHR 0x0A" using wd by blast
  then obtain c x where cx: "wd @ CHR ''|'' # ws @ CHR ''|'' # wl = c # x" "c \<noteq> CHR 0x0A"
    by (cases wd) simp_all
  from split(2) split(3) [unfolded cx(1)] have "\<exists>l'. l = [c] @ l' \<and> split_shape (l' # ls) \<and> l' @ concat ls = x"
    using cx(2) by (intro split_shape_consume) simp_all
  then obtain l' where "l = c # l'" by auto
  with cx(2) have nonempty: "length l \<noteq> lengthNL l"
    by (cases "l' = []") (simp_all add: lengthNL_def)
  from wd split(2,3)
  have "\<exists>line' ls'. split_shape (line' # ls') \<and> line' @ concat ls' = ws @ CHR ''|'' # wl \<and>
          parseField (CHR ''|'') l ls [] = parseField (CHR ''|'') line' ls' ([] @ [nd])"
    by blast
  then obtain l1 ls1 where s1: "split_shape (l1 # ls1)" "l1 @ concat ls1 = ws @ CHR ''|'' # wl"
      "parseField (CHR ''|'') l ls [] = parseField (CHR ''|'') l1 ls1 [nd]"
    by auto
  from ws s1(1,2)
  have "\<exists>line' ls'. split_shape (line' # ls') \<and> line' @ concat ls' = wl \<and>
          parseField (CHR ''|'') l1 ls1 [nd] = parseField (CHR ''|'') line' ls' ([nd] @ [ns])"
    by blast
  then obtain l2 ls2 where s2: "split_shape (l2 # ls2)" "l2 @ concat ls2 = wl"
      "parseField (CHR ''|'') l1 ls1 [nd] = parseField (CHR ''|'') l2 ls2 [nd, ns]"
    by auto
  from wl s2(1,2) have "parseField (CHR ''|'') l2 ls2 [nd, ns] = Inr ([nd, ns] @ [v], [])"
    by blast
  with s1(3) s2(3) have parsed: "parseField (CHR ''|'') l ls [] = Inr ([nd, ns, v], [])"
    by simp
  from parsed nonempty have "readAll (CHR ''|'') 0 (l # ls) [] = Inr [[nd, ns, v]]"
    by (subst readAll.simps) (simp add: validDelim_def readAll_end)
  with split(1) have "ReadAll (CHR ''|'') ?E = Inr [[nd, ns, v]]"
    by (simp add: ReadAll_def)
  then show ?thesis
    unfolding wfd_def wfs_def L_def nd_def ns_def v_def .
qed

lemma ReadAll_trimmed_encoding:
  "ReadAll pipeIDDelimiter (TrimSpace (WriteAll (CHR ''|'') [[d, s, n]]))
     = Inr [[normalizeCRLF d, normalizeCRLF s,
             if fieldNeedsQuotes (CHR ''|'') n then normalizeCRLF n else TrimRightSpace n]]"
  unfolding TrimSpace_encoding_any pipeIDDelimiter_def by (rule ReadAll_encoding_any)

lemma udfIDFromString_trimmed_encoding:
  "udfIDFromString (TrimSpace (WriteAll (CHR ''|'') [[d, s, n]]))
     = Inr \<lparr>DatabaseName = normalizeCRLF d, SchemaName = normalizeCRLF s,
            Name = (if fieldNeedsQuotes (CHR ''|'') n then normalizeCRLF n
                    else TrimRightSpace n)\<rparr>"
  by (simp add: udfIDFromString_def ReadAll_trimmed_encoding)


section \<open>The identifier that the resource functions persist\<close>

lemma ReadUdf_Id:
  "ReadUdf dbc d st = (r, d', st') \<Longrightarrow> Id d' = Id d \<or> Id d' = []"
  unfolding ReadUdf_def Let_def
  by (cases "udfIDFromString (Id d)")
     (auto split: prod.splits scan.splits)

lemma String_is_trimmed:
  "String \<lparr>DatabaseName = d, SchemaName = s, Name = n\<rparr>
     = Inr (TrimSpace (WriteAll (CHR ''|'') [[d, s, n]]))"
  by (simp add: String_def)

lemma CreateUdf_unfold:
  "CreateUdf esc dbc d st =
     (case Create esc (CreateUdf_builder d) of
           Inl e \<Rightarrow> (Some e, d, st)
         | Inr q \<Rightarrow>
             (case Exec dbc q st of
                (False, st') \<Rightarrow> (Some (ExecError (''error creating Udf '' @ d_name d)), d, st')
              | (True, st') \<Rightarrow>
                  ReadUdf dbc (d\<lparr>Id := TrimSpace (WriteAll (CHR ''|'')
                                   [[d_database d, d_schema d, d_name d]])\<rparr>) st'))"
  unfolding CreateUdf_def CreateUdf_builder_def Let_def String_is_trimmed
  by (simp split del: if_split cong: sum.case_cong prod.case_cong bool.case_cong)

lemma create_statement:
  "Create (\<lambda>s. s) (CreateUdf_builder TestUdfCreate_in)
     = Inr ''CREATE SECURE FUNCTION \"test_db\".\"test_schema\".\"good_name\" (\"arg1\" OBJECT, \"arg2\" VARCHAR) RETURNS VARIANT LANGUAGE javascript AS $$ return 1; $$''"
  by code_simp

lemma create_unscoped:
  "Create (\<lambda>s. s) (CreateUdf_builder (TestUdfCreate_in\<lparr>d_database := []\<rparr>)) = Inl MissingScope"
  by code_simp

lemma create_plain:
  "CreateUdf (\<lambda>s. s)
     (mockDb ''CREATE SECURE FUNCTION \"test_db\".\"test_schema\".\"good_name\" (\"arg1\" OBJECT, \"arg2\" VARCHAR) RETURNS VARIANT LANGUAGE javascript AS $$ return 1; $$''
             ''SHOW FUNCTIONS LIKE 'good_name' IN SCHEMA \"test_db\".\"test_schema\"'')
     TestUdfCreate_in ()
   = (None,
      TestUdfCreate_in\<lparr>Id := ''test_db|test_schema|good_name'', d_is_secure := False,
                         d_language := ''language'', d_database := []\<rparr>, ())"
  by code_simp

lemma create_trailing_blank:
  "CreateUdf (\<lambda>s. s)
     (mockDb ''CREATE SECURE FUNCTION \"test_db\".\"test_schema\".\"n \" (\"arg1\" OBJECT, \"arg2\" VARCHAR) RETURNS VARIANT LANGUAGE javascript AS $$ return 1; $$''
             ''SHOW FUNCTIONS LIKE 'n' IN SCHEMA \"test_db\".\"test_schema\"'')
     (TestUdfCreate_in\<lparr>d_name := ''n ''\<rparr>) ()
   = (None,
      TestUdfCreate_in\<lparr>Id := ''test_db|test_schema|n'', d_is_secure := False,
                         d_language := ''language'', d_database := []\<rparr>, ())"
  by code_simp

lemma decode_create_trailing_blank:
  "udfIDFromString ''test_db|test_schema|n''
     = Inr \<lparr>DatabaseName = ''test_db'', SchemaName = ''test_schema'', Name = ''n''\<rparr>"
  by code_simp

lemma update_quote:
  "UpdateUdf (\<lambda>s. s)
     (mockDb ''ALTER FUNCTION \"test_db\".\"test_schema\".\"good_name\" () RENAME TO \"test_db\".\"test_schema\".\"a\"b\"''
             ''SHOW FUNCTIONS LIKE 'good_name' IN SCHEMA \"test_db\".\"test_schema\"'')
     (TestUdfCreate_in\<lparr>Id := ''test_db|test_schema|good_name'', d_name := ''a\"b'',
                         HasChange_name := True\<rparr>) ()
   = (Some NotCSVCompatible,
      TestUdfCreate_in\<lparr>Id := ''test_db|test_schema|a\"b'', d_name := ''a\"b'',
                         HasChange_name := True\<rparr>, ())"
  by code_simp

lemma decode_update_quote: "udfIDFromString ''test_db|test_schema|a\"b'' = Inl NotCSVCompatible"
  by code_simp

lemma encode_quote:
  "String \<lparr>DatabaseName = ''test_db'', SchemaName = ''test_schema'', Name = ''a\"b''\<rparr>
     = Inr ''test_db|test_schema|\"a\"\"b\"''"
  by code_simp

text \<open>
  C3 (the claim as stated fails; amended). When \<^verbatim>\<open>Create\<close> renders the statement of the
  resource data and the database executes it, \<^verbatim>\<open>CreateUdf\<close> sets the identifier to the
  encoding of (database, schema, name), the record that the pipe-delimited CSV writer
  writes with white space trimmed, and continues as \<^verbatim>\<open>ReadUdf\<close>; when \<^verbatim>\<open>Create\<close> or the
  execution fails it returns that error and leaves the resource data as they are. For
  every database, schema and name the encoding reads back as one record of exactly three
  fields: the database and the schema without the carriage returns that precede a
  newline, and the name likewise if the writer quotes it, else without the white space
  that ends it. It decodes to (database, schema, name) itself when no field has a carriage
  return directly followed by a newline and the name does not end in white space, unless
  the writer quotes it.
\<close>

theorem CreateUdf_persisted_id:
  "\<exists>enc. String \<lparr>DatabaseName = d_database d, SchemaName = d_schema d, Name = d_name d\<rparr> = Inr enc \<and>
     enc = TrimSpace (WriteAll (CHR ''|'') [[d_database d, d_schema d, d_name d]]) \<and>
     (\<forall>e. Create esc (CreateUdf_builder d) = Inl e \<longrightarrow>
          CreateUdf esc dbc d st = (Some e, d, st)) \<and>
     (\<forall>q st1. Create esc (CreateUdf_builder d) = Inr q \<and> Exec dbc q st = (False, st1) \<longrightarrow>
          CreateUdf esc dbc d st
            = (Some (ExecError (''error creating Udf '' @ d_name d)), d, st1)) \<and>
     (\<forall>q st1. Create esc (CreateUdf_builder d) = Inr q \<and> Exec dbc q st = (True, st1) \<longrightarrow>
          CreateUdf esc dbc d st = ReadUdf dbc (d\<lparr>Id := enc\<rparr>) st1) \<and>
     (\<forall>r d' st'. CreateUdf esc dbc d st = (r, d', st') \<longrightarrow>
        Id d' = Id d \<or> Id d' = [] \<or> Id d' = enc) \<and>
     ReadAll pipeIDDelimiter enc
       = Inr [[normalizeCRLF (d_database d), normalizeCRLF (d_schema d),
               if fieldNeedsQuotes (CHR ''|'') (d_name d) then normalizeCRLF (d_name d)
               else TrimRightSpace (d_name d)]] \<and>
     udfIDFromString enc
       = Inr \<lparr>DatabaseName = normalizeCRLF (d_database d),
              SchemaName = normalizeCRLF (d_schema d),
              Name = (if fieldNeedsQuotes (CHR ''|'') (d_name d) then normalizeCRLF (d_name d)
                      else TrimRightSpace (d_name d))\<rparr> \<and>
     (noCRLF (d_database d) \<and> noCRLF (d_schema d) \<and> noCRLF (d_name d) \<and>
      (fieldNeedsQuotes (CHR ''|'') (d_name d) \<or> trailingSpace (d_name d) = None)
      \<longrightarrow> udfIDFromString enc
            = Inr \<lparr>DatabaseName = d_database d, SchemaName = d_schema d, Name = d_name d\<rparr>)"
proof -
  define enc where "enc = TrimSpace (WriteAll (CHR ''|'') [[d_database d, d_schema d, d_name d]])"
  define cr where "cr = Create esc (CreateUdf_builder d)"
  have a: "String \<lparr>DatabaseName = d_database d, SchemaName = d_schema d, Name = d_name d\<rparr>
             = Inr enc"
    unfolding enc_def by (rule String_is_trimmed)
  have unfold: "CreateUdf esc dbc d st =
     (case cr of
           Inl e \<Rightarrow> (Some e, d, st)
         | Inr q \<Rightarrow>
             (case Exec dbc q st of
                (False, st') \<Rightarrow> (Some (ExecError (''error creating Udf '' @ d_name d)), d, st')
              | (True, st') \<Rightarrow> ReadUdf dbc (d\<lparr>Id := enc\<rparr>) st'))"
    unfolding enc_def cr_def by (rule CreateUdf_unfold)
  have b: "cr = Inl e \<longrightarrow> CreateUdf esc dbc d st = (Some e, d, st)" for e
    by (simp add: unfold)
  have c: "cr = Inr q \<and> Exec dbc q st = (False, st1) \<longrightarrow>
          CreateUdf esc dbc d st
            = (Some (ExecError (''error creating Udf '' @ d_name d)), d, st1)" for q st1
    by (simp add: unfold)
  have e: "cr = Inr q \<and> Exec dbc q st = (True, st1) \<longrightarrow>
          CreateUdf esc dbc d st = ReadUdf dbc (d\<lparr>Id := enc\<rparr>) st1" for q st1
    by (simp add: unfold)
  have f: "Id d' = Id d \<or> Id d' = [] \<or> Id d' = enc"
    if res: "CreateUdf esc dbc d st = (r, d', st')" for r d' st'
  proof (cases cr)
    case (Inl x)
    with b [of x] res show ?thesis by simp
  next
    case (Inr q)
    obtain ok st1 where ex: "Exec dbc q st = (ok, st1)" by (cases "Exec dbc q st")
    show ?thesis
    proof (cases ok)
      case True
      with e [of q st1] Inr ex res have "ReadUdf dbc (d\<lparr>Id := enc\<rparr>) st1 = (r, d', st')"
        by simp
      from ReadUdf_Id [OF this] show ?thesis by auto
    next
      case False
      with c [of q st1] Inr ex res show ?thesis by simp
    qed
  qed
  have g: "ReadAll pipeIDDelimiter enc
       = Inr [[normalizeCRLF (d_database d), normalizeCRLF (d_schema d),
               if fieldNeedsQuotes (CHR ''|'') (d_name d) then normalizeCRLF (d_name d)
               else TrimRightSpace (d_name d)]]"
    unfolding enc_def by (rule ReadAll_trimmed_encoding)
  have h: "udfIDFromString enc
       = Inr \<lparr>DatabaseName = normalizeCRLF (d_database d),
              SchemaName = normalizeCRLF (d_schema d),
              Name = (if fieldNeedsQuotes (CHR ''|'') (d_name d) then normalizeCRLF (d_name d)
                      else TrimRightSpace (d_name d))\<rparr>"
    unfolding enc_def by (rule udfIDFromString_trimmed_encoding)
  have i: "udfIDFromString enc
            = Inr \<lparr>DatabaseName = d_database d, SchemaName = d_schema d, Name = d_name d\<rparr>"
    if "noCRLF (d_database d) \<and> noCRLF (d_schema d) \<and> noCRLF (d_name d) \<and>
      (fieldNeedsQuotes (CHR ''|'') (d_name d) \<or> trailingSpace (d_name d) = None)"
    using roundtrip [of "d_database d" "d_schema d" "d_name d"] that a by auto
  show ?thesis
    apply (rule exI [of _ enc])
    apply (fold cr_def)
    apply (intro conjI allI impI)
    subgoal by (rule a)
    subgoal by (rule enc_def)
    subgoal for x using b [of x] by simp
    subgoal for q st1 using c [of q st1] by simp
    subgoal for q st1 using e [of q st1] by simp
    subgoal for r d' st' by (rule f)
    subgoal by (rule g)
    subgoal by (rule h)
    subgoal using i by simp
    done
qed

theorem CreateUdf_persisted_id_witness:
  "CreateUdf (\<lambda>s. s)
     (mockDb ''CREATE SECURE FUNCTION \"test_db\".\"test_schema\".\"good_name\" (\"arg1\" OBJECT, \"arg2\" VARCHAR) RETURNS VARIANT LANGUAGE javascript AS $$ return 1; $$''
             ''SHOW FUNCTIONS LIKE 'good_name' IN SCHEMA \"test_db\".\"test_schema\"'')
     TestUdfCreate_in ()
   = ReadUdf
       (mockDb ''CREATE SECURE FUNCTION \"test_db\".\"test_schema\".\"good_name\" (\"arg1\" OBJECT, \"arg2\" VARCHAR) RETURNS VARIANT LANGUAGE javascript AS $$ return 1; $$''
               ''SHOW FUNCTIONS LIKE 'good_name' IN SCHEMA \"test_db\".\"test_schema\"'')
       (TestUdfCreate_in\<lparr>Id := ''test_db|test_schema|good_name''\<rparr>) () \<and>
   CreateUdf (\<lambda>s. s) (mockDb [] []) TestUdfCreate_in ()
     = (Some (ExecError ''error creating Udf good_name''), TestUdfCreate_in, ()) \<and>
   CreateUdf (\<lambda>s. s) (mockDb [] []) (TestUdfCreate_in\<lparr>d_database := []\<rparr>) ()
     = (Some MissingScope, TestUdfCreate_in\<lparr>d_database := []\<rparr>, ()) \<and>
   udfIDFromString ''test_db|test_schema|good_name''
     = Inr \<lparr>DatabaseName = ''test_db'', SchemaName = ''test_schema'', Name = ''good_name''\<rparr>"
proof -
  define stmt where "stmt = ''CREATE SECURE FUNCTION \"test_db\".\"test_schema\".\"good_name\" (\"arg1\" OBJECT, \"arg2\" VARCHAR) RETURNS VARIANT LANGUAGE javascript AS $$ return 1; $$''"
  define dbc where "dbc = mockDb stmt
             ''SHOW FUNCTIONS LIKE 'good_name' IN SCHEMA \"test_db\".\"test_schema\"''"
  define dbc2 where "dbc2 = mockDb [] []"
  define d3 where "d3 = TestUdfCreate_in\<lparr>d_database := []\<rparr>"
  have fields: "d_database TestUdfCreate_in = ''test_db''"
      "d_schema TestUdfCreate_in = ''test_schema''" "d_name TestUdfCreate_in = ''good_name''"
    by (simp_all add: TestUdfCreate_in_def)
  have rendered: "Create (\<lambda>s. s) (CreateUdf_builder TestUdfCreate_in) = Inr stmt"
    unfolding stmt_def by (rule create_statement)
  have failed: "Create (\<lambda>s. s) (CreateUdf_builder d3) = Inl MissingScope"
    unfolding d3_def by (rule create_unscoped)
  have accepted: "Exec dbc stmt () = (True, ())"
    by (simp add: dbc_def mockDb_def)
  have "stmt \<noteq> []" by (simp add: stmt_def)
  then have refused: "Exec dbc2 stmt () = (False, ())"
    by (simp add: dbc2_def mockDb_def)
  have 1: "CreateUdf (\<lambda>s. s) dbc TestUdfCreate_in ()
             = ReadUdf dbc (TestUdfCreate_in\<lparr>Id := ''test_db|test_schema|good_name''\<rparr>) () \<and>
           udfIDFromString ''test_db|test_schema|good_name''
             = Inr \<lparr>DatabaseName = ''test_db'', SchemaName = ''test_schema'',
                    Name = ''good_name''\<rparr>"
    using CreateUdf_persisted_id [of TestUdfCreate_in "\<lambda>s. s" dbc "()", unfolded fields]
  proof (elim exE conjE)
    fix enc
    assume enc: "String \<lparr>DatabaseName = ''test_db'', SchemaName = ''test_schema'',
                    Name = ''good_name''\<rparr> = Inr enc"
      and run: "\<forall>q st1. Create (\<lambda>s. s) (CreateUdf_builder TestUdfCreate_in) = Inr q \<and>
                  Exec dbc q () = (True, st1) \<longrightarrow>
                  CreateUdf (\<lambda>s. s) dbc TestUdfCreate_in ()
                    = ReadUdf dbc (TestUdfCreate_in\<lparr>Id := enc\<rparr>) st1"
      and decode: "noCRLF ''test_db'' \<and> noCRLF ''test_schema'' \<and> noCRLF ''good_name'' \<and>
        (fieldNeedsQuotes (CHR ''|'') ''good_name'' \<or> trailingSpace ''good_name'' = None)
        \<longrightarrow> udfIDFromString enc
              = Inr \<lparr>DatabaseName = ''test_db'', SchemaName = ''test_schema'',
                     Name = ''good_name''\<rparr>"
    from enc have e: "enc = ''test_db|test_schema|good_name''"
      by (simp add: encode_plain)
    from run rendered accepted
    have "CreateUdf (\<lambda>s. s) dbc TestUdfCreate_in ()
            = ReadUdf dbc (TestUdfCreate_in\<lparr>Id := enc\<rparr>) ()"
      by blast
    moreover from decode trailingSpace_plain
    have "udfIDFromString enc
            = Inr \<lparr>DatabaseName = ''test_db'', SchemaName = ''test_schema'',
                   Name = ''good_name''\<rparr>"
      by simp
    ultimately show ?thesis unfolding e by blast
  qed
  have 2: "CreateUdf (\<lambda>s. s) dbc2 TestUdfCreate_in ()
             = (Some (ExecError (''error creating Udf '' @ ''good_name'')), TestUdfCreate_in, ())"
    using CreateUdf_persisted_id [of TestUdfCreate_in "\<lambda>s. s" dbc2 "()", unfolded fields]
  proof (elim exE conjE)
    assume "\<forall>q st1. Create (\<lambda>s. s) (CreateUdf_builder TestUdfCreate_in) = Inr q \<and>
                  Exec dbc2 q () = (False, st1) \<longrightarrow>
                  CreateUdf (\<lambda>s. s) dbc2 TestUdfCreate_in ()
                    = (Some (ExecError (''error creating Udf '' @ ''good_name'')),
                       TestUdfCreate_in, st1)"
    with rendered refused show ?thesis by blast
  qed
  have 3: "CreateUdf (\<lambda>s. s) dbc2 d3 () = (Some MissingScope, d3, ())"
    using CreateUdf_persisted_id [of d3 "\<lambda>s. s" dbc2 "()"]
  proof (elim exE conjE)
    assume "\<forall>e. Create (\<lambda>s. s) (CreateUdf_builder d3) = Inl e \<longrightarrow>
                  CreateUdf (\<lambda>s. s) dbc2 d3 () = (Some e, d3, ())"
    with failed show ?thesis by blast
  qed
  from 1 2 3 show ?thesis
    unfolding dbc_def dbc2_def d3_def stmt_def by simp
qed

text \<open>
  The claim as stated fails: the identifier that \<^verbatim>\<open>CreateUdf\<close> persists for a name ending
  in a blank decodes to another name, and the identifier that \<^verbatim>\<open>UpdateUdf\<close> persists
  after renaming to a name with a double quote is the three values joined by pipes, not
  the CSV encoding of them, and does not decode.
\<close>

theorem CreateUdf_persisted_id_counterexample:
  "fst (CreateUdf (\<lambda>s. s)
     (mockDb ''CREATE SECURE FUNCTION \"test_db\".\"test_schema\".\"n \" (\"arg1\" OBJECT, \"arg2\" VARCHAR) RETURNS VARIANT LANGUAGE javascript AS $$ return 1; $$''
             ''SHOW FUNCTIONS LIKE 'n' IN SCHEMA \"test_db\".\"test_schema\"'')
     (TestUdfCreate_in\<lparr>d_name := ''n ''\<rparr>) ()) = None \<and>
   Id (fst (snd (CreateUdf (\<lambda>s. s)
     (mockDb ''CREATE SECURE FUNCTION \"test_db\".\"test_schema\".\"n \" (\"arg1\" OBJECT, \"arg2\" VARCHAR) RETURNS VARIANT LANGUAGE javascript AS $$ return 1; $$''
             ''SHOW FUNCTIONS LIKE 'n' IN SCHEMA \"test_db\".\"test_schema\"'')
     (TestUdfCreate_in\<lparr>d_name := ''n ''\<rparr>) ()))) = ''test_db|test_schema|n'' \<and>
   udfIDFromString ''test_db|test_schema|n''
     = Inr \<lparr>DatabaseName = ''test_db'', SchemaName = ''test_schema'', Name = ''n''\<rparr> \<and>
   ''n'' \<noteq> ''n '' \<and>
   Id (fst (snd (UpdateUdf (\<lambda>s. s)
     (mockDb ''ALTER FUNCTION \"test_db\".\"test_schema\".\"good_name\" () RENAME TO \"test_db\".\"test_schema\".\"a\"b\"''
             ''SHOW FUNCTIONS LIKE 'good_name' IN SCHEMA \"test_db\".\"test_schema\"'')
     (TestUdfCreate_in\<lparr>Id := ''test_db|test_schema|good_name'', d_name := ''a\"b'',
                         HasChange_name := True\<rparr>) ()))) = ''test_db|test_schema|a\"b'' \<and>
   udfIDFromString ''test_db|test_schema|a\"b'' = Inl NotCSVCompatible \<and>
   String \<lparr>DatabaseName = ''test_db'', SchemaName = ''test_schema'', Name = ''a\"b''\<rparr>
     = Inr ''test_db|test_schema|\"a\"\"b\"''"
  using create_trailing_blank decode_create_trailing_blank update_quote decode_update_quote
    encode_quote
  by simp

end
